theory Spec2Isabelle
  imports Complex_Main "HOL-Library.AList"
begin

section \<open>Decimal arithmetic\<close>

text \<open>
  Every money column of the repository is a \<^verbatim>\<open>DecimalField\<close>, read back as a Python
  \<^verbatim>\<open>Decimal\<close>. A finite \<^verbatim>\<open>Decimal\<close> is modelled by the rational number it denotes;
  comparison of decimals is numeric in Python, so it is equality of rationals here.
  Arithmetic on \<^verbatim>\<open>Decimal\<close> is carried out in the default context, which nothing
  under \<^verbatim>\<open>backend/\<close> changes: 28 significant digits, ties to the even neighbour.
\<close>

type_synonym decimal = rat

definition round_half_even :: "rat \<Rightarrow> int" where
  "round_half_even x =
     (let f = \<lfloor>x\<rfloor>; r = x - of_int f
      in if r < 1 / 2 then f
         else if 1 / 2 < r then f + 1
         else if even f then f else f + 1)"

text \<open>The number of decimal digits of a natural number, \<^verbatim>\<open>len(str(n))\<close>.\<close>

fun ndigits :: "nat \<Rightarrow> nat" where
  "ndigits n = (if n < 10 then 1 else Suc (ndigits (n div 10)))"

text \<open>
  The adjusted exponent of a non-zero decimal: the power of ten of its leading digit.
  With \<open>a / b\<close> the value in lowest terms, \<open>a\<close> has \<open>da\<close> digits and \<open>b\<close> has \<open>db\<close>, so
  the quotient lies between \<open>10 ^ (da - db - 1)\<close> and \<open>10 ^ (da - db + 1)\<close>; one
  comparison decides which decade it is in.
\<close>

definition adjusted :: "rat \<Rightarrow> int" where
  "adjusted x =
     (let a = nat \<bar>fst (quotient_of x)\<bar>; b = nat (snd (quotient_of x));
          da = ndigits a; db = ndigits b
      in if b * 10 ^ da \<le> a * 10 ^ db then int da - int db else int da - int db - 1)"

definition scale10 :: "int \<Rightarrow> rat \<Rightarrow> rat" where
  "scale10 k x = (if 0 \<le> k then x * 10 ^ nat k else x / 10 ^ nat (- k))"

definition prec :: int where
  "prec = 28"

text \<open>What the context does to the exact result of an operation.\<close>

definition round_ctx :: "decimal \<Rightarrow> decimal" where
  "round_ctx x =
     (if x = 0 then 0
      else let k = prec - 1 - adjusted x
           in scale10 (- k) (of_int (round_half_even (scale10 k x))))"

datatype error =
  DoesNotExist | IntegrityError | ValueError | DivisionByZero | InvalidOperation | DataError

definition dec_add :: "decimal \<Rightarrow> decimal \<Rightarrow> decimal" where
  "dec_add a b = round_ctx (a + b)"

definition dec_div :: "decimal \<Rightarrow> nat \<Rightarrow> error + decimal" where
  "dec_div a n = (if n = 0 then Inl DivisionByZero else Inr (round_ctx (a / of_nat n)))"

text \<open>The builtins \<^verbatim>\<open>sum\<close>, \<^verbatim>\<open>min\<close> and \<^verbatim>\<open>max\<close> over a list of decimals.\<close>

definition py_sum :: "decimal list \<Rightarrow> decimal" where
  "py_sum xs = foldl dec_add 0 xs"

fun py_min :: "decimal list \<Rightarrow> error + decimal" where
  "py_min [] = Inl ValueError"
| "py_min (x # xs) = Inr (fold min xs x)"

fun py_max :: "decimal list \<Rightarrow> error + decimal" where
  "py_max [] = Inl ValueError"
| "py_max (x # xs) = Inr (fold max xs x)"

text \<open>
  A value that a column \<^verbatim>\<open>DecimalField(max_digits=10, decimal_places=2)\<close> can hold:
  a whole number of hundredths, below \<open>10 ^ 8\<close> in size.
\<close>

definition fits_column :: "decimal \<Rightarrow> bool" where
  "fits_column x = (snd (quotient_of (x * 100)) = 1 \<and> \<bar>x\<bar> < 10 ^ 8)"

text \<open>The same for \<^verbatim>\<open>DecimalField(max_digits=8, decimal_places=2)\<close>.\<close>

definition fits_shipping_column :: "decimal \<Rightarrow> bool" where
  "fits_shipping_column x = (snd (quotient_of (x * 100)) = 1 \<and> \<bar>x\<bar> < 10 ^ 6)"

text \<open>
  A decimal that does not fit is not stored as it is. \<^verbatim>\<open>Model.save\<close> hands each value to
  the database layer, which rounds it to the \<^verbatim>\<open>decimal_places\<close> of the column and raises
  when the rounded value needs more than \<^verbatim>\<open>max_digits\<close> digits; the instance in memory
  keeps the value it had. Which way a tie is rounded, and which exception is raised, is
  the one thing that depends on the layer, and no file under \<^verbatim>\<open>backend/\<close> settles it:
  Django's \<^verbatim>\<open>format_number\<close> quantizes in a decimal context of \<^verbatim>\<open>max_digits\<close> digits
  with the default rounding, ties to even, and raises \<^verbatim>\<open>InvalidOperation\<close>; a PostgreSQL
  \<^verbatim>\<open>numeric\<close> column that is handed the value as it is rounds ties away from zero and
  raises \<^verbatim>\<open>DataError\<close>. Both are modelled, under the names that the \<^verbatim>\<open>decimal\<close>
  module gives the two roundings.
\<close>

datatype rounding = ROUND_HALF_EVEN | ROUND_HALF_UP

definition round_half_up :: "rat \<Rightarrow> int" where
  "round_half_up x = (if 0 \<le> x then \<lfloor>x + 1 / 2\<rfloor> else - \<lfloor>- x + 1 / 2\<rfloor>)"

definition quantize :: "rounding \<Rightarrow> nat \<Rightarrow> decimal \<Rightarrow> decimal" where
  "quantize r places x =
     of_int ((case r of ROUND_HALF_EVEN \<Rightarrow> round_half_even | ROUND_HALF_UP \<Rightarrow> round_half_up)
               (x * 10 ^ places)) / 10 ^ places"

definition to_column :: "rounding \<Rightarrow> nat \<Rightarrow> nat \<Rightarrow> decimal \<Rightarrow> error + decimal" where
  "to_column r max_digits decimal_places x =
     (let y = quantize r decimal_places x
      in if \<bar>y\<bar> < 10 ^ (max_digits - decimal_places) then Inr y
         else Inl (case r of ROUND_HALF_EVEN \<Rightarrow> InvalidOperation | ROUND_HALF_UP \<Rightarrow> DataError))"

text \<open>The same for a column that is nullable.\<close>

definition to_nullable_column ::
  "rounding \<Rightarrow> nat \<Rightarrow> nat \<Rightarrow> decimal option \<Rightarrow> error + decimal option" where
  "to_nullable_column r max_digits decimal_places v =
     (case v of
        None \<Rightarrow> Inr None
      | Some x \<Rightarrow>
          (case to_column r max_digits decimal_places x of
             Inl e \<Rightarrow> Inl e
           | Inr y \<Rightarrow> Inr (Some y)))"

section \<open>Tables of the products app\<close>

text \<open>
  Times are microseconds since the epoch. A product has all its columns; of a price
  observation the columns are kept that the functions below read or write. A foreign key
  to a table that is not modelled (retailer, retailer profile, category, brand) is kept as
  the bare id, and is taken to refer to a row that exists. A string is taken to be within
  the \<^verbatim>\<open>max_length\<close> of its column and a count within the range of an integer column.
  \<^verbatim>\<open>created_at\<close> (\<^verbatim>\<open>auto_now_add\<close>) is \<open>None\<close> in an object that was built by
  the constructor and has not been inserted.
\<close>

type_synonym datetime = int

record product =
  prod_id :: nat
  name :: string
  slug :: string
  description :: string
  category_id :: nat
  brand_id :: nat
  image_file :: "string option"
  sku :: string
  upc :: string
  mpn :: string
  lowest_price :: "decimal option"
  highest_price :: "decimal option"
  average_price :: "decimal option"
  view_count :: nat
  created_at :: "datetime option"
  updated_at :: datetime

text \<open>
  \<^verbatim>\<open>RetailerProductPrice\<close>: the columns of a row, and the instance in memory, which has
  besides them its primary key (\<open>None\<close> until the first save) and the \<^verbatim>\<open>Product\<close>
  object cached behind the attribute \<^verbatim>\<open>product\<close> (\<open>None\<close> until it is first read).
\<close>

record price_row =
  product_id :: nat
  retailer :: "nat option"
  small_retailer :: "nat option"
  price :: decimal
  currency :: string
  shipping_cost :: decimal
  is_available :: bool
  previous_price :: "decimal option"
  price_updated_at :: datetime
  last_checked :: datetime

record retailer_product_price = price_row +
  pk :: "nat option"
  cached_product :: "product option"

record history_row =
  ph_product_id :: nat
  ph_retailer :: "nat option"
  ph_small_retailer :: "nat option"
  ph_price :: decimal
  ph_currency :: string
  timestamp :: datetime

text \<open>The tables, and the rounding of the layer that adapts decimals to their columns.\<close>

record db =
  products :: "product list"
  retailer_prices :: "(nat \<times> price_row) list"
  price_history :: "(nat \<times> history_row) list"
  decimal_rounding :: rounding

section \<open>Product\<close>

definition get_product :: "db \<Rightarrow> nat \<Rightarrow> error + product" where
  "get_product d k =
     (case find (\<lambda>r. prod_id r = k) (products d) of
        None \<Rightarrow> Inl DoesNotExist
      | Some r \<Rightarrow> Inr r)"

text \<open>
  \<^verbatim>\<open>Model.save\<close> on a product that has its primary key. \<^verbatim>\<open>updated_at\<close>
  (\<^verbatim>\<open>auto_now\<close>) is set to the current time. Every column of the row is then written
  from the instance, the three decimals as the layer adapts them to
  \<^verbatim>\<open>DecimalField(max_digits=10, decimal_places=2)\<close>; the row is inserted when no row has
  the key, and then \<^verbatim>\<open>created_at\<close> is set too. The database refuses an update that
  would store no \<^verbatim>\<open>created_at\<close>, and any write that would give two products the same
  slug (\<^verbatim>\<open>unique=True\<close>).
\<close>

definition write_product :: "product \<Rightarrow> product list \<Rightarrow> product list" where
  "write_product p rows =
     (if list_ex (\<lambda>r. prod_id r = prod_id p) rows
      then map (\<lambda>r. if prod_id r = prod_id p then p else r) rows
      else rows @ [p])"

definition product_to_db :: "rounding \<Rightarrow> product \<Rightarrow> error + product" where
  "product_to_db r p =
     (case to_nullable_column r 10 2 (lowest_price p) of
        Inl e \<Rightarrow> Inl e
      | Inr lo \<Rightarrow>
          (case to_nullable_column r 10 2 (highest_price p) of
             Inl e \<Rightarrow> Inl e
           | Inr hi \<Rightarrow>
               (case to_nullable_column r 10 2 (average_price p) of
                  Inl e \<Rightarrow> Inl e
                | Inr avg \<Rightarrow>
                    Inr (p\<lparr>lowest_price := lo, highest_price := hi, average_price := avg\<rparr>))))"

definition slug_taken :: "product \<Rightarrow> product list \<Rightarrow> bool" where
  "slug_taken p rows = list_ex (\<lambda>r. prod_id r \<noteq> prod_id p \<and> slug r = slug p) rows"

definition Model_save_product :: "datetime \<Rightarrow> product \<Rightarrow> db \<Rightarrow> error + product \<times> db" where
  "Model_save_product now self d =
     (let update = list_ex (\<lambda>r. prod_id r = prod_id self) (products d);
          self' = self\<lparr>created_at := (if update then created_at self else Some now),
                       updated_at := now\<rparr>
      in case product_to_db (decimal_rounding d) self' of
           Inl e \<Rightarrow> Inl e
         | Inr row \<Rightarrow>
             if created_at self' = None then Inl IntegrityError
             else if slug_taken self' (products d) then Inl IntegrityError
             else Inr (self', d\<lparr>products := write_product row (products d)\<rparr>))"

text \<open>\<^verbatim>\<open>Product.save\<close>; \<^verbatim>\<open>slugify\<close> is Django's and is taken as a parameter.\<close>

definition Product_save ::
  "(string \<Rightarrow> string) \<Rightarrow> datetime \<Rightarrow> product \<Rightarrow> db \<Rightarrow> error + product \<times> db" where
  "Product_save slugify now self d =
     (let self' = (if slug self = [] then self\<lparr>slug := slugify (name self)\<rparr> else self)
      in Model_save_product now self' d)"

text \<open>
  \<^verbatim>\<open>self.retailer_prices.filter(is_available=True).values_list('price', flat=True)\<close>
\<close>

definition available_prices :: "db \<Rightarrow> nat \<Rightarrow> decimal list" where
  "available_prices d k =
     map (\<lambda>(i, r). price r)
       (filter (\<lambda>(i, r). product_id r = k \<and> is_available r) (retailer_prices d))"

definition update_price_stats ::
  "(string \<Rightarrow> string) \<Rightarrow> datetime \<Rightarrow> product \<Rightarrow> db \<Rightarrow> error + product \<times> db" where
  "update_price_stats slugify now self d =
     (let prices = available_prices d (prod_id self)
      in if prices \<noteq> [] then
           (case py_min prices of
              Inl e \<Rightarrow> Inl e
            | Inr lo \<Rightarrow>
                (case py_max prices of
                   Inl e \<Rightarrow> Inl e
                 | Inr hi \<Rightarrow>
                     (case dec_div (py_sum prices) (length prices) of
                        Inl e \<Rightarrow> Inl e
                      | Inr avg \<Rightarrow>
                          Product_save slugify now
                            (self\<lparr>lowest_price := Some lo,
                                   highest_price := Some hi,
                                   average_price := Some avg\<rparr>) d)))
         else Inr (self, d))"

section \<open>RetailerProductPrice\<close>

text \<open>
  \<^verbatim>\<open>unique_together = [('product', 'retailer'), ('product', 'small_retailer')]\<close>:
  two rows clash when they have the same product and the same retailer, or the same
  product and the same small retailer. A null reference clashes with nothing.
\<close>

definition unique_clash :: "price_row \<Rightarrow> price_row \<Rightarrow> bool" where
  "unique_clash row r =
     (product_id r = product_id row \<and>
      ((case retailer row of None \<Rightarrow> False | Some x \<Rightarrow> retailer r = Some x) \<or>
       (case small_retailer row of None \<Rightarrow> False | Some x \<Rightarrow> small_retailer r = Some x)))"

definition unique_together_violated ::
  "nat option \<Rightarrow> price_row \<Rightarrow> (nat \<times> price_row) list \<Rightarrow> bool" where
  "unique_together_violated k row tbl =
     list_ex (\<lambda>(i, r). Some i \<noteq> k \<and> unique_clash row r) tbl"

text \<open>The key an insert gives a new row: one that no row of the table has.\<close>

definition next_pk :: "(nat \<times> 'a) list \<Rightarrow> nat" where
  "next_pk tbl = Suc (fold max (map fst tbl) 0)"

text \<open>
  The row that the columns hold for the values of an instance: \<^verbatim>\<open>price\<close> and
  \<^verbatim>\<open>previous_price\<close> adapted to \<^verbatim>\<open>DecimalField(max_digits=10, decimal_places=2)\<close>,
  \<^verbatim>\<open>shipping_cost\<close> to \<^verbatim>\<open>DecimalField(max_digits=8, decimal_places=2)\<close>.
\<close>

definition price_row_to_db :: "rounding \<Rightarrow> price_row \<Rightarrow> error + price_row" where
  "price_row_to_db r row =
     (case to_column r 10 2 (price row) of
        Inl e \<Rightarrow> Inl e
      | Inr p \<Rightarrow>
          (case to_column r 8 2 (shipping_cost row) of
             Inl e \<Rightarrow> Inl e
           | Inr s \<Rightarrow>
               (case to_nullable_column r 10 2 (previous_price row) of
                  Inl e \<Rightarrow> Inl e
                | Inr pp \<Rightarrow>
                    Inr (row\<lparr>price := p, shipping_cost := s, previous_price := pp\<rparr>))))"

text \<open>
  \<^verbatim>\<open>Model.save\<close> on a price instance: the two \<^verbatim>\<open>auto_now\<close> columns are set, and
  the row is updated under the instance's key, or inserted (under that key when it has one
  that no row has, under a new key otherwise). The row holds the decimals as adapted to
  their columns; the instance keeps its own. The database refuses the write when the
  product does not exist or when \<^verbatim>\<open>unique_together\<close> is violated.
\<close>

definition Model_save_price ::
  "datetime \<Rightarrow> retailer_product_price \<Rightarrow> db \<Rightarrow> error + retailer_product_price \<times> db" where
  "Model_save_price now self d =
     (let self' = self\<lparr>price_updated_at := now, last_checked := now\<rparr>
      in case price_row_to_db (decimal_rounding d) (price_row.truncate self') of
           Inl e \<Rightarrow> Inl e
         | Inr row \<Rightarrow>
             if list_ex (\<lambda>p. prod_id p = product_id row) (products d) then
               (if unique_together_violated (pk self') row (retailer_prices d)
                then Inl IntegrityError
                else
                  (case pk self' of
                     Some k \<Rightarrow>
                       Inr (self', d\<lparr>retailer_prices := AList.update k row (retailer_prices d)\<rparr>)
                   | None \<Rightarrow>
                       (let k = next_pk (retailer_prices d)
                        in Inr (self'\<lparr>pk := Some k\<rparr>,
                                d\<lparr>retailer_prices := retailer_prices d @ [(k, row)]\<rparr>))))
             else Inl IntegrityError)"

text \<open>
  The attribute \<^verbatim>\<open>self.product\<close> after a save: the cached object when there is one
  (saving drops a cached object whose key is not the instance's \<^verbatim>\<open>product_id\<close>), the
  row of the database otherwise.
\<close>

definition the_product :: "retailer_product_price \<Rightarrow> db \<Rightarrow> error + product" where
  "the_product self d =
     (case cached_product self of
        Some p \<Rightarrow> if prod_id p = product_id self then Inr p else get_product d (product_id self)
      | None \<Rightarrow> get_product d (product_id self))"

text \<open>
  The first block of \<^verbatim>\<open>RetailerProductPrice.save\<close>, under its comment
  \<^verbatim>\<open># Track price changes\<close>. The test \<^verbatim>\<open>if self.pk:\<close> is false for \<^verbatim>\<open>None\<close> and
  for 0; \<^verbatim>\<open>objects.get\<close> raises when no row has the key.
\<close>

definition track_price_changes ::
  "retailer_product_price \<Rightarrow> db \<Rightarrow> error + retailer_product_price" where
  "track_price_changes self d =
     (case pk self of
        None \<Rightarrow> Inr self
      | Some k \<Rightarrow>
          if k = 0 then Inr self
          else (case map_of (retailer_prices d) k of
                  None \<Rightarrow> Inl DoesNotExist
                | Some old_instance \<Rightarrow>
                    Inr (if price old_instance \<noteq> price self
                         then self\<lparr>previous_price := Some (price old_instance)\<rparr>
                         else self)))"

text \<open>
  \<^verbatim>\<open>RetailerProductPrice.save\<close>: track the price change, save the row, update the
  statistics of the product. The product object whose statistics were updated stays
  cached on the instance. The comparison of the old price with the new one is between the
  stored value, which has two decimal places, and the value of the instance as it was
  given. An error value stands for the exception that leaves \<^verbatim>\<open>save\<close>; it does not say
  what the tables hold at that point.
\<close>

definition RetailerProductPrice_save ::
  "(string \<Rightarrow> string) \<Rightarrow> datetime \<Rightarrow> retailer_product_price \<Rightarrow> db
     \<Rightarrow> error + retailer_product_price \<times> db" where
  "RetailerProductPrice_save slugify now self d =
     (case track_price_changes self d of
        Inl e \<Rightarrow> Inl e
      | Inr self1 \<Rightarrow>
          (case Model_save_price now self1 d of
             Inl e \<Rightarrow> Inl e
           | Inr (self2, d1) \<Rightarrow>
               (case the_product self2 d1 of
                  Inl e \<Rightarrow> Inl e
                | Inr p \<Rightarrow>
                    (case update_price_stats slugify now p d1 of
                       Inl e \<Rightarrow> Inl e
                     | Inr (p', d2) \<Rightarrow> Inr (self2\<lparr>cached_product := Some p'\<rparr>, d2)))))"

section \<open>Tasks of the products app\<close>

fun str_nat :: "nat \<Rightarrow> string" where
  "str_nat n =
     (if n < 10 then [char_of (48 + n)]
      else str_nat (n div 10) @ [char_of (48 + n mod 10)])"

text \<open>\<^verbatim>\<open>timedelta(days=365)\<close>, in microseconds.\<close>

definition timedelta_days :: "int \<Rightarrow> int" where
  "timedelta_days n = n * 86400 * 1000000"

text \<open>
  \<^verbatim>\<open>clean_old_price_data\<close>: the query set is the rows whose timestamp is before the
  horizon; it is counted, then deleted. The argument is the value of \<^verbatim>\<open>timezone.now()\<close>.
\<close>

definition clean_old_price_data :: "datetime \<Rightarrow> db \<Rightarrow> string \<times> db" where
  "clean_old_price_data now d =
     (let one_year_ago = now - timedelta_days 365;
          old_records = filter (\<lambda>(i, h). timestamp h < one_year_ago) (price_history d);
          count = length old_records;
          d' = d\<lparr>price_history :=
                   filter (\<lambda>(i, h). \<not> timestamp h < one_year_ago) (price_history d)\<rparr>
      in (''Deleted '' @ str_nat count @ '' price history records older than one year.'', d'))"

text \<open>
  \<^verbatim>\<open>update_product_prices\<close>: the products are read once, and each object read is asked to
  update its statistics; an exception ends the task. The count in the message is the
  length of the query set that was read.
\<close>

fun update_each ::
  "(string \<Rightarrow> string) \<Rightarrow> datetime \<Rightarrow> product list \<Rightarrow> db \<Rightarrow> error + db" where
  "update_each slugify now [] d = Inr d"
| "update_each slugify now (p # ps) d =
     (case update_price_stats slugify now p d of
        Inl e \<Rightarrow> Inl e
      | Inr (p', d') \<Rightarrow> update_each slugify now ps d')"

definition update_product_prices ::
  "(string \<Rightarrow> string) \<Rightarrow> datetime \<Rightarrow> db \<Rightarrow> error + string \<times> db" where
  "update_product_prices slugify now d =
     (case update_each slugify now (products d) d of
        Inl e \<Rightarrow> Inl e
      | Inr d' \<Rightarrow>
          Inr (''Updated price statistics for '' @ str_nat (length (products d)) @ '' products.'',
               d'))"

section \<open>Scrapers app\<close>





definition STATUS_CHOICES :: "string list" where
  "STATUS_CHOICES = [''success'', ''partial'', ''failed'']"




section \<open>Statements and sample data\<close>

text \<open>
  The database with the currency column of the price table rewritten: row \<open>i\<close> gets
  the currency \<open>f i\<close>.
\<close>

definition with_currency :: "(nat \<Rightarrow> string) \<Rightarrow> db \<Rightarrow> db" where
  "with_currency f d =
     d\<lparr>retailer_prices := map (\<lambda>(i, r). (i, r\<lparr>currency := f i\<rparr>)) (retailer_prices d)\<rparr>"

text \<open>
  The rows that the columns hold for a product object and for the values of a price
  instance, when the columns can hold them: each decimal rounded to two places.
\<close>

definition stored_product :: "rounding \<Rightarrow> product \<Rightarrow> product" where
  "stored_product r p =
     p\<lparr>lowest_price := map_option (quantize r 2) (lowest_price p),
       highest_price := map_option (quantize r 2) (highest_price p),
       average_price := map_option (quantize r 2) (average_price p)\<rparr>"

definition stored_price_row :: "rounding \<Rightarrow> price_row \<Rightarrow> price_row" where
  "stored_price_row r row =
     row\<lparr>price := quantize r 2 (price row),
         shipping_cost := quantize r 2 (shipping_cost row),
         previous_price := map_option (quantize r 2) (previous_price row)\<rparr>"

text \<open>
  A price table as a database can hold it: every stored price fits its column. The bound
  on the number of rows keeps the sum of the prices within the 28 digits of the context.
\<close>

definition price_table_ok :: "db \<Rightarrow> bool" where
  "price_table_ok d =
     (list_all (\<lambda>(i, r). fits_column (price r)) (retailer_prices d) \<and>
      length (retailer_prices d) < 10 ^ 17)"

text \<open>
  The price table and the product table without their \<^verbatim>\<open>auto_now\<close> columns, which
  every save sets to the current time.
\<close>

definition untimed_prices :: "db \<Rightarrow> (nat \<times> price_row) list" where
  "untimed_prices d =
     map (\<lambda>(i, r). (i, r\<lparr>price_updated_at := 0, last_checked := 0\<rparr>)) (retailer_prices d)"

definition untimed_products :: "db \<Rightarrow> product list" where
  "untimed_products d = map (\<lambda>p. p\<lparr>updated_at := 0\<rparr>) (products d)"

text \<open>
  The average as the specification words it: the arithmetic mean, rounded to two decimal
  places, ties away from zero.
\<close>

definition spec_average :: "decimal list \<Rightarrow> decimal" where
  "spec_average ps =
     (let m = sum_list ps / of_nat (length ps)
      in if 0 \<le> m then of_int \<lfloor>m * 100 + 1 / 2\<rfloor> / 100
         else - (of_int \<lfloor>- m * 100 + 1 / 2\<rfloor> / 100))"

text \<open>A product, offers for it, and a database holding them.\<close>

definition widget :: product where
  "widget =
     \<lparr>prod_id = 1, name = ''Widget'', slug = ''widget'', description = [], category_id = 1,
      brand_id = 1, image_file = None, sku = [], upc = [], mpn = [], lowest_price = Some 8,
      highest_price = Some 10, average_price = Some 9, view_count = 5, created_at = Some 50,
      updated_at = 100\<rparr>"

definition offer :: "nat option \<Rightarrow> nat option \<Rightarrow> decimal \<Rightarrow> string \<Rightarrow> bool \<Rightarrow> price_row" where
  "offer r s p c a =
     \<lparr>product_id = 1, retailer = r, small_retailer = s, price = p, currency = c,
      shipping_cost = 499 / 100, is_available = a, previous_price = None,
      price_updated_at = 100, last_checked = 100\<rparr>"

definition instance_of :: "nat option \<Rightarrow> price_row \<Rightarrow> retailer_product_price" where
  "instance_of k row = price_row.extend row (retailer_product_price.fields k None)"

definition shop :: "(nat \<times> price_row) list \<Rightarrow> db" where
  "shop rows =
     \<lparr>products = [widget], retailer_prices = rows, price_history = [],
      decimal_rounding = ROUND_HALF_EVEN\<rparr>"

text \<open>A history entry with a given timestamp.\<close>

definition entry :: "datetime \<Rightarrow> history_row" where
  "entry t =
     \<lparr>ph_product_id = 1, ph_retailer = Some 1, ph_small_retailer = None, ph_price = 10,
      ph_currency = ''USD'', timestamp = t\<rparr>"





declare str_nat.simps [simp del] ndigits.simps [simp del]

section \<open>Facts about decimal arithmetic\<close>

lemma ndigits_upper: "n < 10 ^ ndigits n"
proof (induction n rule: ndigits.induct)
  case (1 n)
  show ?case
  proof (cases "n < 10")
    case True
    then show ?thesis by (simp add: ndigits.simps)
  next
    case False
    with 1 have "n div 10 < 10 ^ ndigits (n div 10)" by simp
    then have "n < 10 * 10 ^ ndigits (n div 10)" by simp
    with False show ?thesis by (simp add: ndigits.simps[of n])
  qed
qed

lemma ndigits_lower: "0 < n \<Longrightarrow> 10 ^ (ndigits n - 1) \<le> n"
proof (induction n rule: ndigits.induct)
  case (1 n)
  show ?case
  proof (cases "n < 10")
    case True
    with 1 show ?thesis by (simp add: ndigits.simps)
  next
    case False
    then have pos: "0 < n div 10" by simp
    with 1 False have "10 ^ (ndigits (n div 10) - 1) \<le> n div 10" by simp
    then have "10 * 10 ^ (ndigits (n div 10) - 1) \<le> n" by simp
    moreover have "0 < ndigits (n div 10)" by (simp add: ndigits.simps[of "n div 10"])
    ultimately show ?thesis using False
      by (simp add: ndigits.simps[of n] flip: power_Suc)
  qed
qed


lemma round_half_even_cases:
  "round_half_even x = \<lfloor>x\<rfloor> \<or>
   (round_half_even x = \<lfloor>x\<rfloor> + 1 \<and> 1 / 2 \<le> x - of_int \<lfloor>x\<rfloor>)"
  by (auto simp: round_half_even_def Let_def)

lemma round_half_even_ge:
  assumes "of_int n \<le> x"
  shows "n \<le> round_half_even x"
proof -
  from assms have "n \<le> \<lfloor>x\<rfloor>" by (simp add: le_floor_iff)
  with round_half_even_cases[of x] show ?thesis by auto
qed

lemma round_half_even_le:
  assumes "x \<le> of_int n"
  shows "round_half_even x \<le> n"
proof -
  from round_half_even_cases[of x] show ?thesis
  proof
    assume "round_half_even x = \<lfloor>x\<rfloor>"
    moreover from assms have "\<lfloor>x\<rfloor> \<le> n" by (simp add: floor_le_iff) 
    ultimately show ?thesis by simp
  next
    assume h: "round_half_even x = \<lfloor>x\<rfloor> + 1 \<and> 1 / 2 \<le> x - of_int \<lfloor>x\<rfloor>"
    have "x \<noteq> of_int n"
    proof
      assume "x = of_int n"
      with h show False by simp
    qed
    with assms have "x < of_int n" by simp
    then have "\<lfloor>x\<rfloor> < n" by (simp add: floor_less_iff)
    with h show ?thesis by simp
  qed
qed

lemma round_half_even_of_int: "round_half_even (of_int n) = n"
  by (simp add: round_half_even_def)

lemma adjusted_less:
  assumes "x \<noteq> 0" and "\<bar>x\<bar> < 10 ^ m"
  shows "adjusted x < int m"
proof -
  obtain a b where q: "quotient_of x = (a, b)" by (cases "quotient_of x")
  then have bpos: "0 < b" by (rule quotient_of_denom_pos)
  from q have x: "x = of_int a / of_int b" by (rule quotient_of_div)
  with assms(1) bpos have a0: "a \<noteq> 0" by auto
  define A where "A = nat \<bar>a\<bar>"
  define B where "B = nat b"
  have Apos: "0 < A" using a0 by (simp add: A_def)
  have Bpos: "0 < B" using bpos by (simp add: B_def)
  have absx: "\<bar>x\<bar> = of_nat A / of_nat B"
    using bpos by (simp add: x A_def B_def abs_divide)
  have "(of_nat A :: rat) / of_nat B < 10 ^ m" using assms(2) absx by simp
  then have "(of_nat A :: rat) < 10 ^ m * of_nat B"
    using Bpos by (simp add: pos_divide_less_eq)
  then have "(of_nat A :: rat) < of_nat (10 ^ m * B)" by simp
  then have lt: "A < 10 ^ m * B" by (simp only: of_nat_less_iff)
  have adj: "adjusted x =
      (if B * 10 ^ ndigits A \<le> A * 10 ^ ndigits B then int (ndigits A) - int (ndigits B)
       else int (ndigits A) - int (ndigits B) - 1)"
    by (simp add: adjusted_def q A_def B_def Let_def)
  have Bup: "B < 10 ^ ndigits B" by (rule ndigits_upper)
  have Alow: "10 ^ (ndigits A - 1) \<le> A" using Apos by (rule ndigits_lower)
  show ?thesis
  proof (cases "B * 10 ^ ndigits A \<le> A * 10 ^ ndigits B")
    case True
    have "B * 10 ^ ndigits A \<le> A * 10 ^ ndigits B" by (rule True)
    also have "\<dots> < (10 ^ m * B) * 10 ^ ndigits B" using lt by simp
    finally have "B * 10 ^ ndigits A < B * 10 ^ (m + ndigits B)"
      by (simp add: power_add mult_ac)
    then have "(10::nat) ^ ndigits A < 10 ^ (m + ndigits B)" using Bpos by simp
    then have "ndigits A < m + ndigits B" by simp
    with True adj show ?thesis by simp
  next
    case False
    have "10 ^ (ndigits A - 1) \<le> A" by (rule Alow)
    also have "\<dots> < 10 ^ m * B" by (rule lt)
    also have "\<dots> < 10 ^ m * 10 ^ ndigits B" using Bup by simp
    finally have "(10::nat) ^ (ndigits A - 1) < 10 ^ (m + ndigits B)" by (simp add: power_add)
    then have "ndigits A - 1 < m + ndigits B" by simp
    with False adj show ?thesis by simp
  qed
qed

text \<open>
  A value with \<open>j\<close> decimal places and fewer than \<open>28 - j\<close> digits before the point
  has at most 28 significant digits. Rounding to the context's precision never leaves an
  interval whose ends are such values, so it leaves such values themselves alone.
\<close>

lemma round_ctx_between_places:
  assumes lo: "lo * 10 ^ j = of_int L" and hi: "hi * 10 ^ j = of_int H"
    and "lo \<le> x" and "x \<le> hi" and bound: "\<bar>x\<bar> < 10 ^ (28 - j)" and j: "j \<le> 28"
  shows "lo \<le> round_ctx x \<and> round_ctx x \<le> hi"
proof (cases "x = 0")
  case True
  with assms show ?thesis by (simp add: round_ctx_def)
next
  case False
  define k where "k = prec - 1 - adjusted x"
  from False bound have "adjusted x < int (28 - j)" by (rule adjusted_less)
  then have kj: "int j \<le> k" using j by (simp add: k_def prec_def)
  define i where "i = nat k - j"
  have nk: "nat k = i + j" using kj by (simp add: i_def)
  have k0: "0 \<le> k" using kj by simp
  have rc: "round_ctx x = of_int (round_half_even (x * 10 ^ nat k)) / 10 ^ nat k"
    using False k0 by (simp add: round_ctx_def Let_def k_def[symmetric] scale10_def)
  have plo: "lo * 10 ^ nat k = of_int (L * 10 ^ i)"
    using lo by (simp add: nk power_add)
  have phi: "hi * 10 ^ nat k = of_int (H * 10 ^ i)"
    using hi by (simp add: nk power_add)
  have "lo * 10 ^ nat k \<le> x * 10 ^ nat k"
    using assms(3) by (intro mult_right_mono) simp_all
  then have "of_int (L * 10 ^ i) \<le> x * 10 ^ nat k"
    by (simp only: plo)
  then have "L * 10 ^ i \<le> round_half_even (x * 10 ^ nat k)" by (rule round_half_even_ge)
  then have "(of_int (L * 10 ^ i) :: rat) \<le> of_int (round_half_even (x * 10 ^ nat k))"
    by (simp only: of_int_le_iff)
  then have "lo * 10 ^ nat k \<le> of_int (round_half_even (x * 10 ^ nat k))"
    by (simp only: plo)
  then have a: "lo \<le> round_ctx x"
    by (simp add: rc pos_le_divide_eq)
  have "x * 10 ^ nat k \<le> hi * 10 ^ nat k"
    using assms(4) by (intro mult_right_mono) simp_all
  then have "x * 10 ^ nat k \<le> of_int (H * 10 ^ i)"
    by (simp only: phi)
  then have "round_half_even (x * 10 ^ nat k) \<le> H * 10 ^ i" by (rule round_half_even_le)
  then have "(of_int (round_half_even (x * 10 ^ nat k)) :: rat) \<le> of_int (H * 10 ^ i)"
    by (simp only: of_int_le_iff)
  then have "of_int (round_half_even (x * 10 ^ nat k)) \<le> hi * 10 ^ nat k"
    by (simp only: phi)
  then have b: "round_ctx x \<le> hi"
    by (simp add: rc pos_divide_le_eq)
  from a b show ?thesis ..
qed

lemma round_ctx_exact_places:
  assumes "x * 10 ^ j = of_int L" and "\<bar>x\<bar> < 10 ^ (28 - j)" and "j \<le> 28"
  shows "round_ctx x = x"
  using round_ctx_between_places[OF assms(1) assms(1) order_refl order_refl assms(2) assms(3)]
  by simp

lemma round_ctx_between:
  assumes "lo * 100 = of_int L" and "hi * 100 = of_int H"
    and "lo \<le> x" and "x \<le> hi" and "\<bar>x\<bar> < 10 ^ 26"
  shows "lo \<le> round_ctx x \<and> round_ctx x \<le> hi"
  using round_ctx_between_places[of lo 2 L hi H x] assms by simp

lemma round_ctx_exact:
  assumes "x * 100 = of_int L" and "\<bar>x\<bar> < 10 ^ 26"
  shows "round_ctx x = x"
  using round_ctx_exact_places[of x 2 L] assms by simp

text \<open>Sums of column values are exact, and their mean lies between the extremes.\<close>

lemma hundredths:
  assumes "fits_column x"
  shows "\<exists>L. x * 100 = of_int L"
proof -
  obtain a b where q: "quotient_of (x * 100) = (a, b)" by (cases "quotient_of (x * 100)")
  with assms have "b = 1" by (simp add: fits_column_def)
  with quotient_of_div[OF q] show ?thesis by auto
qed

lemma fits_column_bound: "fits_column x \<Longrightarrow> \<bar>x\<bar> < 10 ^ 8"
  by (simp add: fits_column_def)

lemma foldl_dec_add:
  assumes "list_all fits_column xs" and "acc * 100 = of_int L"
    and "\<bar>acc\<bar> + of_nat (length xs) * 10 ^ 8 < 10 ^ 26"
  shows "foldl dec_add acc xs = acc + sum_list xs"
  using assms
proof (induction xs arbitrary: acc L)
  case Nil
  then show ?case by simp
next
  case (Cons x xs)
  from Cons.prems(1) have fx: "fits_column x" and fxs: "list_all fits_column xs" by simp_all
  from hundredths[OF fx] obtain Lx where Lx: "x * 100 = of_int Lx" ..
  have h: "(acc + x) * 100 = of_int (L + Lx)"
    using Cons.prems(2) Lx by (simp add: algebra_simps)
  have bx: "\<bar>x\<bar> < 10 ^ 8" using fx by (rule fits_column_bound)
  have tri: "\<bar>acc + x\<bar> \<le> \<bar>acc\<bar> + \<bar>x\<bar>" by (rule abs_triangle_ineq)
  have len: "(0::rat) \<le> of_nat (length xs) * 10 ^ 8" by simp
  have b: "\<bar>acc + x\<bar> + of_nat (length xs) * 10 ^ 8 < 10 ^ 26"
    using Cons.prems(3) bx tri by (simp add: algebra_simps)
  then have b0: "\<bar>acc + x\<bar> < 10 ^ 26" using len by linarith
  have step: "dec_add acc x = acc + x"
    unfolding dec_add_def by (rule round_ctx_exact[OF h b0])
  show ?case
    using Cons.IH[OF fxs h b] by (simp add: step algebra_simps)
qed

lemma py_sum_exact:
  assumes "list_all fits_column xs" and "length xs < 10 ^ 18"
  shows "py_sum xs = sum_list xs"
proof -
  have "(of_nat (length xs) :: rat) < of_nat (10 ^ 18)"
    using assms(2) by (simp only: of_nat_less_iff)
  then have "(of_nat (length xs) :: rat) * 10 ^ 8 < 10 ^ 26" by simp
  then have "\<bar>0::rat\<bar> + of_nat (length xs) * 10 ^ 8 < 10 ^ 26" by simp
  from foldl_dec_add[OF assms(1) _ this, of 0] show ?thesis
    by (simp add: py_sum_def)
qed

lemma sum_list_lower:
  fixes m :: rat
  assumes "\<And>x. x \<in> set xs \<Longrightarrow> m \<le> x"
  shows "of_nat (length xs) * m \<le> sum_list xs"
  using assms by (induction xs) (auto simp: algebra_simps intro: add_mono)

lemma sum_list_upper:
  fixes m :: rat
  assumes "\<And>x. x \<in> set xs \<Longrightarrow> x \<le> m"
  shows "sum_list xs \<le> of_nat (length xs) * m"
  using assms by (induction xs) (auto simp: algebra_simps intro: add_mono)

lemma mean_between:
  fixes xs :: "rat list"
  assumes "xs \<noteq> []"
  shows "Min (set xs) \<le> sum_list xs / of_nat (length xs) \<and>
         sum_list xs / of_nat (length xs) \<le> Max (set xs)"
proof -
  have n: "(0::rat) < of_nat (length xs)" using assms by simp
  have "of_nat (length xs) * Min (set xs) \<le> sum_list xs"
    by (rule sum_list_lower) simp
  moreover have "sum_list xs \<le> of_nat (length xs) * Max (set xs)"
    by (rule sum_list_upper) simp
  ultimately show ?thesis using n
    by (simp add: pos_le_divide_eq pos_divide_le_eq mult.commute)
qed

lemma py_min_Min: "xs \<noteq> [] \<Longrightarrow> py_min xs = Inr (Min (set xs))"
proof (cases xs)
  case (Cons y ys)
  then show ?thesis by (simp only: py_min.simps Min.set_eq_fold)
qed simp

lemma py_max_Max: "xs \<noteq> [] \<Longrightarrow> py_max xs = Inr (Max (set xs))"
proof (cases xs)
  case (Cons y ys)
  then show ?thesis by (simp only: py_max.simps Max.set_eq_fold)
qed simp

section \<open>Facts about decimal columns\<close>

lemma round_half_up_ge:
  assumes "of_int n \<le> x"
  shows "n \<le> round_half_up x"
proof (cases "0 \<le> x")
  case True
  from assms have "of_int n \<le> x + 1 / 2" by simp
  then have "n \<le> \<lfloor>x + 1 / 2\<rfloor>" by (simp only: le_floor_iff)
  with True show ?thesis by (simp add: round_half_up_def)
next
  case False
  from assms have "- x + 1 / 2 < of_int (- n) + 1" by simp
  then have "\<lfloor>- x + 1 / 2\<rfloor> \<le> - n" by (simp only: floor_le_iff)
  with False show ?thesis by (simp add: round_half_up_def)
qed

lemma round_half_up_le:
  assumes "x \<le> of_int n"
  shows "round_half_up x \<le> n"
proof (cases "0 \<le> x")
  case True
  from assms have "x + 1 / 2 < of_int n + 1" by simp
  then have "\<lfloor>x + 1 / 2\<rfloor> \<le> n" by (simp only: floor_le_iff)
  with True show ?thesis by (simp add: round_half_up_def)
next
  case False
  from assms have "of_int (- n) \<le> - x + 1 / 2" by simp
  then have "- n \<le> \<lfloor>- x + 1 / 2\<rfloor>" by (simp only: le_floor_iff)
  with False show ?thesis by (simp add: round_half_up_def)
qed

lemma quantize_between:
  assumes lo: "lo * 10 ^ j = of_int L" and hi: "hi * 10 ^ j = of_int H"
    and "lo \<le> x" and "x \<le> hi"
  shows "lo \<le> quantize r j x \<and> quantize r j x \<le> hi"
proof -
  let ?f = "case r of ROUND_HALF_EVEN \<Rightarrow> round_half_even | ROUND_HALF_UP \<Rightarrow> round_half_up"
  have q: "quantize r j x = of_int (?f (x * 10 ^ j)) / 10 ^ j"
    by (simp add: quantize_def)
  have "lo * 10 ^ j \<le> x * 10 ^ j"
    using assms(3) by (intro mult_right_mono) simp_all
  then have "of_int L \<le> x * 10 ^ j" by (simp only: lo)
  then have "L \<le> ?f (x * 10 ^ j)"
    by (cases r) (simp_all add: round_half_even_ge round_half_up_ge)
  then have "(of_int L :: rat) \<le> of_int (?f (x * 10 ^ j))" by (simp only: of_int_le_iff)
  then have "lo * 10 ^ j \<le> of_int (?f (x * 10 ^ j))" by (simp only: lo)
  then have a: "lo \<le> quantize r j x"
    by (simp add: q pos_le_divide_eq)
  have "x * 10 ^ j \<le> hi * 10 ^ j"
    using assms(4) by (intro mult_right_mono) simp_all
  then have "x * 10 ^ j \<le> of_int H" by (simp only: hi)
  then have "?f (x * 10 ^ j) \<le> H"
    by (cases r) (simp_all add: round_half_even_le round_half_up_le)
  then have "(of_int (?f (x * 10 ^ j)) :: rat) \<le> of_int H" by (simp only: of_int_le_iff)
  then have "of_int (?f (x * 10 ^ j)) \<le> hi * 10 ^ j" by (simp only: hi)
  then have b: "quantize r j x \<le> hi"
    by (simp add: q pos_divide_le_eq)
  from a b show ?thesis ..
qed

lemma quantize_exact:
  assumes "x * 10 ^ j = of_int L"
  shows "quantize r j x = x"
  using quantize_between[OF assms assms order_refl order_refl, of r] by simp

lemma quantize_hundredths: "\<exists>N. quantize r 2 x * 100 = of_int N"
  by (simp add: quantize_def)

lemma to_column_Inr:
  assumes "to_column r m j x = Inr y"
  shows "y = quantize r j x" and "\<bar>y\<bar> < 10 ^ (m - j)"
  using assms by (auto simp: to_column_def Let_def split: if_splits)

lemma to_column_stored:
  assumes "to_column r 10 2 x = Inr y"
  shows "fits_column y"
proof -
  from to_column_Inr[OF assms] have y: "y = quantize r 2 x" and b: "\<bar>y\<bar> < 10 ^ 8" by simp_all
  from quantize_hundredths[of r x] y obtain N where "y * 100 = of_int N" by auto
  then have "snd (quotient_of (y * 100)) = 1" by simp
  with b show ?thesis by (simp add: fits_column_def)
qed

lemma to_column_between:
  assumes "fits_column lo" and "fits_column hi" and "lo \<le> x" and "x \<le> hi"
  shows "to_column r 10 2 x = Inr (quantize r 2 x) \<and> lo \<le> quantize r 2 x \<and> quantize r 2 x \<le> hi"
proof -
  from hundredths[OF assms(1)] obtain L where L: "lo * 10 ^ 2 = of_int L" by auto
  from hundredths[OF assms(2)] obtain H where H: "hi * 10 ^ 2 = of_int H" by auto
  note b = quantize_between[OF L H assms(3,4), of r]
  have "\<bar>quantize r 2 x\<bar> < 10 ^ 8"
    using b fits_column_bound[OF assms(1)] fits_column_bound[OF assms(2)] by linarith
  with b show ?thesis by (simp add: to_column_def Let_def)
qed

lemma to_column_fits:
  assumes "fits_column x"
  shows "to_column r 10 2 x = Inr x"
proof -
  from hundredths[OF assms] obtain L where L: "x * 10 ^ 2 = of_int L" by auto
  have "quantize r 2 x = x" by (rule quantize_exact[OF L])
  with to_column_between[OF assms assms order_refl order_refl, of r] show ?thesis by simp
qed

lemma quantize_fits: "fits_column x \<Longrightarrow> quantize r 2 x = x"
  using to_column_fits[of x r] to_column_Inr(1)[of r 10 2 x x] by simp

lemma to_nullable_column_Inr:
  assumes "to_nullable_column r m j v = Inr w"
  shows "w = map_option (quantize r j) v"
  using assms to_column_Inr(1)[of r m j]
  by (auto simp: to_nullable_column_def split: option.splits sum.splits)

lemma to_nullable_column_stored:
  assumes "to_nullable_column r 10 2 v = Inr (Some y)"
  shows "fits_column y"
  using assms to_column_stored[of r _ y]
  by (auto simp: to_nullable_column_def split: option.splits sum.splits)

lemma to_nullable_column_fits:
  assumes "case v of None \<Rightarrow> True | Some x \<Rightarrow> fits_column x"
  shows "to_nullable_column r 10 2 v = Inr v"
  using assms by (auto simp: to_nullable_column_def to_column_fits split: option.splits)

section \<open>Facts about the products app\<close>

lemma str_nat_0: "str_nat 0 = ''0''"
  by code_simp

lemma filter_filter_not:
  "filter P (filter (\<lambda>x. \<not> P x) xs) = []"
  by (induction xs) auto

lemma update_price_stats_empty:
  "available_prices d (prod_id self) = [] \<Longrightarrow> update_price_stats slugify now self d = Inr (self, d)"
  by (simp add: update_price_stats_def)

lemma update_price_stats_nonempty:
  assumes "available_prices d (prod_id self) = ps" and "ps \<noteq> []"
  shows "update_price_stats slugify now self d =
     Product_save slugify now
       (self\<lparr>lowest_price := Some (Min (set ps)),
              highest_price := Some (Max (set ps)),
              average_price := Some (round_ctx (py_sum ps / of_nat (length ps)))\<rparr>) d"
  using assms by (simp add: update_price_stats_def py_min_Min py_max_Max dec_div_def)

lemma find_replace:
  "list_ex (\<lambda>r. prod_id r = prod_id p) rows \<Longrightarrow>
   find (\<lambda>r. prod_id r = prod_id p) (map (\<lambda>r. if prod_id r = prod_id p then p else r) rows) = Some p"
  by (induction rows) auto

lemma find_append_new:
  "\<not> list_ex P rows \<Longrightarrow> P p \<Longrightarrow> find P (rows @ [p]) = Some p"
  by (induction rows) auto

lemma find_write_product:
  "find (\<lambda>r. prod_id r = prod_id p) (write_product p rows) = Some p"
  by (simp add: write_product_def find_replace find_append_new)

lemma filter_write_product:
  "filter (\<lambda>r. prod_id r \<noteq> prod_id p) (write_product p rows) =
   filter (\<lambda>r. prod_id r \<noteq> prod_id p) rows"
proof -
  have "filter (\<lambda>r. prod_id r \<noteq> prod_id p) (map (\<lambda>r. if prod_id r = prod_id p then p else r) rows) =
        filter (\<lambda>r. prod_id r \<noteq> prod_id p) rows"
    by (induction rows) auto
  then show ?thesis by (simp add: write_product_def)
qed

lemma product_to_db_Inr:
  assumes "product_to_db r p = Inr row"
  shows "row = stored_product r p"
  using assms
  by (auto simp: product_to_db_def stored_product_def split: sum.splits
      dest!: to_nullable_column_Inr)

lemma stored_product_simps:
  "prod_id (stored_product r p) = prod_id p" "name (stored_product r p) = name p"
  "slug (stored_product r p) = slug p" "view_count (stored_product r p) = view_count p"
  "created_at (stored_product r p) = created_at p" "updated_at (stored_product r p) = updated_at p"
  "lowest_price (stored_product r p) = map_option (quantize r 2) (lowest_price p)"
  "highest_price (stored_product r p) = map_option (quantize r 2) (highest_price p)"
  "average_price (stored_product r p) = map_option (quantize r 2) (average_price p)"
  by (simp_all add: stored_product_def)

text \<open>
  Whether the three statistics of an object can be stored depends on them alone, and they
  can be when lowest and highest fit the column and the average lies between them.
\<close>

lemma product_to_db_cong:
  assumes "product_to_db r p = Inr row" and "lowest_price q = lowest_price p"
    and "highest_price q = highest_price p" and "average_price q = average_price p"
  shows "product_to_db r q = Inr (stored_product r q)"
  using assms
  by (auto simp: product_to_db_def stored_product_def split: sum.splits
      dest!: to_nullable_column_Inr)

lemma product_to_db_stats:
  assumes "lowest_price p = Some lo" and "highest_price p = Some hi" and "average_price p = Some avg"
    and "fits_column lo" and "fits_column hi" and "lo \<le> avg" and "avg \<le> hi"
  shows "product_to_db r p = Inr (stored_product r p)"
    and "stored_product r p = p\<lparr>average_price := Some (quantize r 2 avg)\<rparr>"
proof -
  have lo: "to_nullable_column r 10 2 (Some lo) = Inr (Some lo)"
    using assms(4) by (simp add: to_nullable_column_fits)
  have hi: "to_nullable_column r 10 2 (Some hi) = Inr (Some hi)"
    using assms(5) by (simp add: to_nullable_column_fits)
  have avg: "to_nullable_column r 10 2 (Some avg) = Inr (Some (quantize r 2 avg))"
    using to_column_between[OF assms(4,5,6,7), of r] by (simp add: to_nullable_column_def)
  show 2: "stored_product r p = p\<lparr>average_price := Some (quantize r 2 avg)\<rparr>"
    using assms(1,2,3) quantize_fits[OF assms(4), of r] quantize_fits[OF assms(5), of r]
    by (intro product.equality) (simp_all add: stored_product_def)
  show "product_to_db r p = Inr (stored_product r p)"
    unfolding 2 using assms(1,2,3) lo hi avg
    by (simp add: product_to_db_def)
qed

text \<open>What \<^verbatim>\<open>Product.save\<close> has done when it returns, and when it does return.\<close>

lemma Product_save_Inr:
  assumes "Product_save slugify now q d = Inr (p', d')"
  shows "p' = q\<lparr>slug := (if slug q = [] then slugify (name q) else slug q),
                created_at := (if list_ex (\<lambda>r. prod_id r = prod_id q) (products d)
                               then created_at q else Some now),
                updated_at := now\<rparr>"
    and "product_to_db (decimal_rounding d) p' = Inr (stored_product (decimal_rounding d) p')"
    and "d' = d\<lparr>products := write_product (stored_product (decimal_rounding d) p') (products d)\<rparr>"
    and "created_at p' \<noteq> None" and "\<not> slug_taken p' (products d)"
proof -
  define q1 where "q1 = (if slug q = [] then q\<lparr>slug := slugify (name q)\<rparr> else q)"
  define q2 where "q2 = q1\<lparr>created_at := (if list_ex (\<lambda>r. prod_id r = prod_id q1) (products d)
                               then created_at q1 else Some now), updated_at := now\<rparr>"
  from assms have m: "Model_save_product now q1 d = Inr (p', d')"
    by (simp add: Product_save_def q1_def Let_def)
  then obtain row where row: "product_to_db (decimal_rounding d) q2 = Inr row"
    by (auto simp: Model_save_product_def Let_def q2_def split: sum.splits)
  note st = product_to_db_Inr[OF row]
  from m row have r: "created_at q2 \<noteq> None" "\<not> slug_taken q2 (products d)" "p' = q2"
    "d' = d\<lparr>products := write_product row (products d)\<rparr>"
    by (auto simp: Model_save_product_def Let_def q2_def[symmetric] split: if_splits)
  show "p' = q\<lparr>slug := (if slug q = [] then slugify (name q) else slug q),
                created_at := (if list_ex (\<lambda>r. prod_id r = prod_id q) (products d)
                               then created_at q else Some now),
                updated_at := now\<rparr>"
    by (simp add: r(3) q2_def q1_def)
  show "product_to_db (decimal_rounding d) p' = Inr (stored_product (decimal_rounding d) p')"
    using row st by (simp add: r(3))
  show "d' = d\<lparr>products := write_product (stored_product (decimal_rounding d) p') (products d)\<rparr>"
    using r(4) st by (simp add: r(3))
  show "created_at p' \<noteq> None" using r(1) by (simp add: r(3))
  show "\<not> slug_taken p' (products d)" using r(2) by (simp add: r(3))
qed

lemma Product_save_ok:
  assumes "product_to_db (decimal_rounding d) q = Inr row"
    and "created_at q \<noteq> None \<or> \<not> list_ex (\<lambda>r. prod_id r = prod_id q) (products d)"
    and "\<not> slug_taken (q\<lparr>slug := (if slug q = [] then slugify (name q) else slug q)\<rparr>) (products d)"
  shows "\<exists>p' d'. Product_save slugify now q d = Inr (p', d')"
proof -
  define q1 where "q1 = (if slug q = [] then q\<lparr>slug := slugify (name q)\<rparr> else q)"
  define q2 where "q2 = q1\<lparr>created_at := (if list_ex (\<lambda>r. prod_id r = prod_id q1) (products d)
                               then created_at q1 else Some now), updated_at := now\<rparr>"
  have "product_to_db (decimal_rounding d) q2 = Inr (stored_product (decimal_rounding d) q2)"
    by (rule product_to_db_cong[OF assms(1)]) (simp_all add: q2_def q1_def)
  moreover have "created_at q2 \<noteq> None" using assms(2) by (auto simp: q2_def q1_def)
  moreover have "\<not> slug_taken q2 (products d)"
    using assms(3) by (auto simp: q2_def q1_def slug_taken_def)
  ultimately show ?thesis
    by (simp add: Product_save_def Model_save_product_def Let_def q1_def[symmetric] q2_def[symmetric])
qed

lemma get_product_Product_save:
  assumes "Product_save slugify now q d = Inr (p', d')"
  shows "get_product d' (prod_id q) = Inr (stored_product (decimal_rounding d) p')"
proof -
  let ?row = "stored_product (decimal_rounding d) p'"
  have id: "prod_id ?row = prod_id q"
    by (simp add: stored_product_simps Product_save_Inr(1)[OF assms])
  have "find (\<lambda>r. prod_id r = prod_id ?row) (write_product ?row (products d)) = Some ?row"
    by (rule find_write_product)
  then show ?thesis
    by (simp add: get_product_def Product_save_Inr(3)[OF assms] id)
qed

lemma Product_save_frame:
  assumes "Product_save slugify now q d = Inr (p', d')"
  shows "retailer_prices d' = retailer_prices d" and "price_history d' = price_history d"
    and "decimal_rounding d' = decimal_rounding d" and "prod_id p' = prod_id q"
    and "filter (\<lambda>r. prod_id r \<noteq> prod_id q) (products d') =
         filter (\<lambda>r. prod_id r \<noteq> prod_id q) (products d)"
proof -
  let ?row = "stored_product (decimal_rounding d) p'"
  note d' = Product_save_Inr(3)[OF assms]
  show id: "prod_id p' = prod_id q" by (simp add: Product_save_Inr(1)[OF assms])
  show "retailer_prices d' = retailer_prices d" "price_history d' = price_history d"
    "decimal_rounding d' = decimal_rounding d"
    by (simp_all add: d')
  have "prod_id ?row = prod_id q" by (simp add: stored_product_simps id)
  then show "filter (\<lambda>r. prod_id r \<noteq> prod_id q) (products d') =
        filter (\<lambda>r. prod_id r \<noteq> prod_id q) (products d)"
    using filter_write_product[of ?row "products d"] by (simp add: d')
qed

lemma fits_column_examples:
  "fits_column 10" "fits_column 8" "fits_column 20" "fits_column (1001 / 100)"
  "fits_column (- 5)" "fits_column 15" "fits_column 9"
  by code_simp+

lemma update_price_stats_eval:
  assumes "available_prices d (prod_id self) = ps" and "ps \<noteq> []"
    and "list_all fits_column ps" and "length ps < 10 ^ 18"
    and "sum_list ps / of_nat (length ps) = m"
    and "m * 10 ^ j = of_int L" and "\<bar>m\<bar> < 10 ^ (28 - j)" and "j \<le> 28"
  shows "update_price_stats slugify now self d =
     Product_save slugify now
       (self\<lparr>lowest_price := Some (Min (set ps)),
              highest_price := Some (Max (set ps)),
              average_price := Some m\<rparr>) d"
proof -
  have "py_sum ps / of_nat (length ps) = m"
    by (simp only: py_sum_exact[OF assms(3) assms(4)] assms(5))
  then have "round_ctx (py_sum ps / of_nat (length ps)) = round_ctx m"
    by (simp only:)
  also have "\<dots> = m"
    by (rule round_ctx_exact_places[OF assms(6) assms(7) assms(8)])
  finally have avg: "round_ctx (py_sum ps / of_nat (length ps)) = m" .
  show ?thesis
    using update_price_stats_nonempty[OF assms(1) assms(2), of slugify now]
    by (simp only: avg)
qed

lemma available_prices_with_currency:
  "available_prices (with_currency f d) k = available_prices d k"
  by (simp add: available_prices_def with_currency_def filter_map o_def split_def)

lemma Model_save_product_with_currency:
  "Model_save_product now q (with_currency f d) =
     (case Model_save_product now q d of
        Inl e \<Rightarrow> Inl e
      | Inr (p', d') \<Rightarrow> Inr (p', with_currency f d'))"
proof -
  define q' where "q' = q\<lparr>created_at := (if list_ex (\<lambda>r. prod_id r = prod_id q) (products d)
                                  then created_at q else Some now), updated_at := now\<rparr>"
  have same: "products (with_currency f d) = products d"
    "decimal_rounding (with_currency f d) = decimal_rounding d"
    by (simp_all add: with_currency_def)
  show ?thesis
  proof (cases "product_to_db (decimal_rounding d) q'")
    case (Inl e)
    then show ?thesis
      by (simp add: Model_save_product_def Let_def same q'_def[symmetric])
  next
    case (Inr row)
    then show ?thesis
      by (simp add: Model_save_product_def Let_def same q'_def[symmetric])
        (simp add: with_currency_def)
  qed
qed

lemma Product_save_with_currency:
  "Product_save slugify now q (with_currency f d) =
     (case Product_save slugify now q d of
        Inl e \<Rightarrow> Inl e
      | Inr (p', d') \<Rightarrow> Inr (p', with_currency f d'))"
  by (simp only: Product_save_def Let_def Model_save_product_with_currency)

lemma find_unique:
  assumes "distinct (map f xs)" and "find (\<lambda>r. f r = k) xs = Some row"
    and "r \<in> set xs" and "f r = k"
  shows "r = row"
proof -
  from assms(2) have "row \<in> set xs" and "f row = k"
    by (auto simp: find_Some_iff)
  moreover from assms(1) have "inj_on f (set xs)" by (simp add: distinct_map)
  ultimately show ?thesis using assms(3,4) by (auto dest: inj_onD)
qed

text \<open>
  What \<^verbatim>\<open>update_price_stats\<close> has done when it returns for a product with available
  observations: the object has the three statistics as computed, and its row holds them
  as the columns store them.
\<close>

lemma update_price_stats_Inr:
  assumes "update_price_stats slugify now self d = Inr (self', d')"
    and "available_prices d (prod_id self) = ps" and "ps \<noteq> []"
  shows "self' = self\<lparr>slug := (if slug self = [] then slugify (name self) else slug self),
                lowest_price := Some (Min (set ps)),
                highest_price := Some (Max (set ps)),
                average_price := Some (round_ctx (py_sum ps / of_nat (length ps))),
                created_at := (if list_ex (\<lambda>r. prod_id r = prod_id self) (products d)
                               then created_at self else Some now),
                updated_at := now\<rparr>"
    and "d' = d\<lparr>products := write_product (stored_product (decimal_rounding d) self') (products d)\<rparr>"
    and "get_product d' (prod_id self) = Inr (stored_product (decimal_rounding d) self')"
    and "product_to_db (decimal_rounding d) self' = Inr (stored_product (decimal_rounding d) self')"
proof -
  define q where "q = self\<lparr>lowest_price := Some (Min (set ps)),
              highest_price := Some (Max (set ps)),
              average_price := Some (round_ctx (py_sum ps / of_nat (length ps)))\<rparr>"
  from assms have pd: "Product_save slugify now q d = Inr (self', d')"
    by (simp add: update_price_stats_nonempty[OF assms(2,3)] q_def)
  show "self' = self\<lparr>slug := (if slug self = [] then slugify (name self) else slug self),
                lowest_price := Some (Min (set ps)),
                highest_price := Some (Max (set ps)),
                average_price := Some (round_ctx (py_sum ps / of_nat (length ps))),
                created_at := (if list_ex (\<lambda>r. prod_id r = prod_id self) (products d)
                               then created_at self else Some now),
                updated_at := now\<rparr>"
    by (subst Product_save_Inr(1)[OF pd]) (simp add: q_def)
  show "d' = d\<lparr>products := write_product (stored_product (decimal_rounding d) self') (products d)\<rparr>"
    by (rule Product_save_Inr(3)[OF pd])
  show "get_product d' (prod_id self) = Inr (stored_product (decimal_rounding d) self')"
    using get_product_Product_save[OF pd] by (simp add: q_def)
  show "product_to_db (decimal_rounding d) self' = Inr (stored_product (decimal_rounding d) self')"
    by (rule Product_save_Inr(2)[OF pd])
qed

lemma update_price_stats_tables:
  assumes "update_price_stats slugify now self d = Inr (self', d')"
  shows "retailer_prices d' = retailer_prices d" and "price_history d' = price_history d"
    and "prod_id self' = prod_id self" and "decimal_rounding d' = decimal_rounding d"
proof -
  have "retailer_prices d' = retailer_prices d \<and> price_history d' = price_history d \<and>
        prod_id self' = prod_id self \<and> decimal_rounding d' = decimal_rounding d"
  proof (cases "available_prices d (prod_id self) = []")
    case True
    with assms show ?thesis by (simp add: update_price_stats_empty)
  next
    case False
    note a = update_price_stats_Inr(1,2)[OF assms refl False]
    have "prod_id self' = prod_id self" by (subst a(1)) simp
    moreover have "retailer_prices d' = retailer_prices d \<and> price_history d' = price_history d \<and>
        decimal_rounding d' = decimal_rounding d" by (subst a(2))+ simp
    ultimately show ?thesis by simp
  qed
  then show "retailer_prices d' = retailer_prices d" and "price_history d' = price_history d"
    and "prod_id self' = prod_id self" and "decimal_rounding d' = decimal_rounding d"
    by simp_all
qed

section \<open>Facts about saving a price\<close>

lemma to_shipping_column_fits:
  assumes "fits_shipping_column x"
  shows "to_column r 8 2 x = Inr x"
proof -
  obtain a b where q: "quotient_of (x * 100) = (a, b)" by (cases "quotient_of (x * 100)")
  with assms have "b = 1" by (simp add: fits_shipping_column_def)
  with quotient_of_div[OF q] have L: "x * 10 ^ 2 = of_int a" by simp
  have "quantize r 2 x = x" by (rule quantize_exact[OF L])
  with assms show ?thesis by (simp add: to_column_def Let_def fits_shipping_column_def)
qed

lemma next_pk_fresh: "map_of tbl (next_pk tbl) = None"
proof -
  have "a < next_pk tbl" if "a \<in> fst ` set tbl" for a
  proof -
    have "fold max (map fst tbl) 0 = Max (set (0 # map fst tbl))"
      by (simp only: Max.set_eq_fold)
    moreover have "a \<le> Max (set (0 # map fst tbl))"
      using that by (intro Max_ge) auto
    ultimately show ?thesis by (simp add: next_pk_def)
  qed
  then have "next_pk tbl \<notin> fst ` set tbl" by blast
  then show ?thesis by (simp add: map_of_eq_None_iff)
qed

lemma truncate_simps:
  "product_id (price_row.truncate s) = product_id s"
  "retailer (price_row.truncate s) = retailer s"
  "small_retailer (price_row.truncate s) = small_retailer s"
  "price (price_row.truncate s) = price s"
  "currency (price_row.truncate s) = currency s"
  "shipping_cost (price_row.truncate s) = shipping_cost s"
  "is_available (price_row.truncate s) = is_available s"
  "previous_price (price_row.truncate s) = previous_price s"
  "price_updated_at (price_row.truncate s) = price_updated_at s"
  "last_checked (price_row.truncate s) = last_checked s"
  by (simp_all add: price_row.defs)

lemma truncate_more:
  "price_row.truncate (s\<lparr>pk := x\<rparr>) = price_row.truncate s"
  "price_row.truncate (s\<lparr>cached_product := y\<rparr>) = price_row.truncate s"
  by (simp_all add: price_row.defs)

lemma stored_price_row_simps:
  "product_id (stored_price_row r row) = product_id row"
  "retailer (stored_price_row r row) = retailer row"
  "small_retailer (stored_price_row r row) = small_retailer row"
  "price (stored_price_row r row) = quantize r 2 (price row)"
  "currency (stored_price_row r row) = currency row"
  "shipping_cost (stored_price_row r row) = quantize r 2 (shipping_cost row)"
  "is_available (stored_price_row r row) = is_available row"
  "previous_price (stored_price_row r row) = map_option (quantize r 2) (previous_price row)"
  "price_updated_at (stored_price_row r row) = price_updated_at row"
  "last_checked (stored_price_row r row) = last_checked row"
  by (simp_all add: stored_price_row_def)

lemma price_row_to_db_Inr:
  assumes "price_row_to_db r row = Inr row'"
  shows "row' = stored_price_row r row" and "fits_column (price row')"
    and "to_column r 10 2 (price row) = Inr (price row')"
    and "to_column r 8 2 (shipping_cost row) = Inr (shipping_cost row')"
    and "to_nullable_column r 10 2 (previous_price row) = Inr (previous_price row')"
proof -
  from assms obtain p s pp where
    p: "to_column r 10 2 (price row) = Inr p" and
    s: "to_column r 8 2 (shipping_cost row) = Inr s" and
    pp: "to_nullable_column r 10 2 (previous_price row) = Inr pp" and
    row': "row' = row\<lparr>price := p, shipping_cost := s, previous_price := pp\<rparr>"
    by (auto simp: price_row_to_db_def split: sum.splits)
  show "row' = stored_price_row r row"
    using to_column_Inr(1)[OF p] to_column_Inr(1)[OF s] to_nullable_column_Inr[OF pp]
    by (simp add: row' stored_price_row_def)
  show "fits_column (price row')"
    using to_column_stored[OF p] by (simp add: row')
  show "to_column r 10 2 (price row) = Inr (price row')" using p by (simp add: row')
  show "to_column r 8 2 (shipping_cost row) = Inr (shipping_cost row')" using s by (simp add: row')
  show "to_nullable_column r 10 2 (previous_price row) = Inr (previous_price row')"
    using pp by (simp add: row')
qed

lemma price_row_to_db_ok:
  assumes "to_column r 10 2 (price row) = Inr p"
    and "to_column r 8 2 (shipping_cost row) = Inr s"
    and "to_nullable_column r 10 2 (previous_price row) = Inr pp"
  shows "price_row_to_db r row = Inr (stored_price_row r row)"
  using assms to_column_Inr(1)[OF assms(1)] to_column_Inr(1)[OF assms(2)]
    to_nullable_column_Inr[OF assms(3)]
  by (simp add: price_row_to_db_def stored_price_row_def)

lemma price_row_to_db_fits:
  assumes "fits_column (price row)" and "fits_shipping_column (shipping_cost row)"
    and "case previous_price row of None \<Rightarrow> True | Some x \<Rightarrow> fits_column x"
  shows "price_row_to_db r row = Inr row"
  using assms
  by (simp add: price_row_to_db_def to_column_fits to_shipping_column_fits
      to_nullable_column_fits)

lemma stored_price_row_fits:
  assumes "fits_column (price row)" and "fits_shipping_column (shipping_cost row)"
    and "case previous_price row of None \<Rightarrow> True | Some x \<Rightarrow> fits_column x"
  shows "stored_price_row r row = row"
  using price_row_to_db_Inr(1)[OF price_row_to_db_fits[OF assms, of r]] by simp

lemma unique_cong:
  assumes "product_id r1 = product_id r2" and "retailer r1 = retailer r2"
    and "small_retailer r1 = small_retailer r2"
  shows "unique_together_violated k r1 tbl = unique_together_violated k r2 tbl"
  using assms by (simp add: unique_together_violated_def unique_clash_def)

lemma Model_save_price_Inr:
  assumes "Model_save_price now s d = Inr (s2, d1)"
  shows "\<exists>k. pk s2 = Some k \<and>
           s2 = s\<lparr>price_updated_at := now, last_checked := now, pk := Some k\<rparr> \<and>
           (case pk s of Some k' \<Rightarrow> k = k' | None \<Rightarrow> k = next_pk (retailer_prices d)) \<and>
           retailer_prices d1 =
             (case pk s of
                Some k' \<Rightarrow> AList.update k' (stored_price_row (decimal_rounding d)
                                              (price_row.truncate s2)) (retailer_prices d)
              | None \<Rightarrow> retailer_prices d @
                         [(k, stored_price_row (decimal_rounding d) (price_row.truncate s2))]) \<and>
           map_of (retailer_prices d1) k =
             Some (stored_price_row (decimal_rounding d) (price_row.truncate s2))"
    and "products d1 = products d" and "price_history d1 = price_history d"
    and "decimal_rounding d1 = decimal_rounding d"
    and "list_ex (\<lambda>p. prod_id p = product_id s) (products d)"
    and "\<not> unique_together_violated (pk s) (price_row.truncate s) (retailer_prices d)"
    and "price_row_to_db (decimal_rounding d)
           (price_row.truncate (s\<lparr>price_updated_at := now, last_checked := now\<rparr>)) =
         Inr (stored_price_row (decimal_rounding d)
           (price_row.truncate (s\<lparr>price_updated_at := now, last_checked := now\<rparr>)))"
proof -
  let ?s = "s\<lparr>price_updated_at := now, last_checked := now\<rparr>"
  let ?r = "decimal_rounding d"
  let ?row = "stored_price_row ?r (price_row.truncate ?s)"
  from assms obtain row where row: "price_row_to_db ?r (price_row.truncate ?s) = Inr row"
    by (auto simp: Model_save_price_def Let_def split: sum.splits)
  have roweq: "row = ?row" by (rule price_row_to_db_Inr(1)[OF row])
  have pid: "product_id ?row = product_id s"
    by (simp add: stored_price_row_simps truncate_simps)
  have uc: "unique_together_violated (pk s) ?row (retailer_prices d) =
        unique_together_violated (pk s) (price_row.truncate s) (retailer_prices d)"
    by (rule unique_cong) (simp_all add: stored_price_row_simps truncate_simps)
  have def: "Model_save_price now s d =
      (if list_ex (\<lambda>p. prod_id p = product_id s) (products d) then
         (if unique_together_violated (pk s) (price_row.truncate s) (retailer_prices d)
          then Inl IntegrityError
          else
            (case pk s of
               Some k \<Rightarrow>
                 Inr (?s, d\<lparr>retailer_prices := AList.update k ?row (retailer_prices d)\<rparr>)
             | None \<Rightarrow>
                 Inr (?s\<lparr>pk := Some (next_pk (retailer_prices d))\<rparr>,
                      d\<lparr>retailer_prices := retailer_prices d @
                           [(next_pk (retailer_prices d), ?row)]\<rparr>)))
       else Inl IntegrityError)"
    using row
    by (simp add: Model_save_price_def Let_def roweq pid uc cong: if_cong option.case_cong)
  from assms have fk: "list_ex (\<lambda>p. prod_id p = product_id s) (products d)"
    unfolding def by (simp split: if_splits)
  from assms have un: "\<not> unique_together_violated (pk s) (price_row.truncate s) (retailer_prices d)"
    unfolding def by (simp split: if_splits)
  show "list_ex (\<lambda>p. prod_id p = product_id s) (products d)" by (rule fk)
  show "\<not> unique_together_violated (pk s) (price_row.truncate s) (retailer_prices d)" by (rule un)
  show "price_row_to_db ?r (price_row.truncate ?s) = Inr ?row" using row roweq by simp
  from assms fk un have res: "(case pk s of
                     Some k \<Rightarrow>
                       Inr (?s, d\<lparr>retailer_prices := AList.update k ?row (retailer_prices d)\<rparr>)
                   | None \<Rightarrow>
                        Inr (?s\<lparr>pk := Some (next_pk (retailer_prices d))\<rparr>,
                                d\<lparr>retailer_prices := retailer_prices d @
                                     [(next_pk (retailer_prices d), ?row)]\<rparr>)) =
          (Inr (s2, d1) :: error + retailer_product_price \<times> db)"
    unfolding def by simp
  show "products d1 = products d" using res by (auto split: option.splits)
  show "price_history d1 = price_history d" using res by (auto split: option.splits)
  show "decimal_rounding d1 = decimal_rounding d" using res by (auto split: option.splits)
  show "\<exists>k. pk s2 = Some k \<and>
           s2 = s\<lparr>price_updated_at := now, last_checked := now, pk := Some k\<rparr> \<and>
           (case pk s of Some k' \<Rightarrow> k = k' | None \<Rightarrow> k = next_pk (retailer_prices d)) \<and>
           retailer_prices d1 =
             (case pk s of
                Some k' \<Rightarrow> AList.update k' (stored_price_row (decimal_rounding d)
                                              (price_row.truncate s2)) (retailer_prices d)
              | None \<Rightarrow> retailer_prices d @
                         [(k, stored_price_row (decimal_rounding d) (price_row.truncate s2))]) \<and>
           map_of (retailer_prices d1) k =
             Some (stored_price_row (decimal_rounding d) (price_row.truncate s2))"
  proof (cases "pk s")
    case None
    with res have s2: "s2 = ?s\<lparr>pk := Some (next_pk (retailer_prices d))\<rparr>"
      and d1: "d1 = d\<lparr>retailer_prices := retailer_prices d @ [(next_pk (retailer_prices d), ?row)]\<rparr>"
      by auto
    show ?thesis
      using None by (simp add: s2 d1 truncate_more map_add_def next_pk_fresh)
  next
    case (Some k')
    with res have s2: "s2 = ?s"
      and d1: "d1 = d\<lparr>retailer_prices := AList.update k' ?row (retailer_prices d)\<rparr>"
      by auto
    have "s2 = s\<lparr>price_updated_at := now, last_checked := now, pk := Some k'\<rparr>"
      using Some by (simp add: s2)
    then show ?thesis
      using Some by (simp add: s2 d1 update_conv')
  qed
qed

lemma Model_save_price_ok:
  assumes "list_ex (\<lambda>p. prod_id p = product_id s) (products d)"
    and "\<not> unique_together_violated (pk s) (price_row.truncate s) (retailer_prices d)"
    and "price_row_to_db (decimal_rounding d) (price_row.truncate s) = Inr row"
  shows "\<exists>s2 d1. Model_save_price now s d = Inr (s2, d1)"
proof -
  let ?s = "s\<lparr>price_updated_at := now, last_checked := now\<rparr>"
  let ?r = "decimal_rounding d"
  have "price_row_to_db ?r (price_row.truncate ?s) = Inr (stored_price_row ?r (price_row.truncate ?s))"
    using price_row_to_db_Inr(3,4,5)[OF assms(3)]
    by (intro price_row_to_db_ok) (simp_all add: truncate_simps)
  moreover have "unique_together_violated (pk s) (stored_price_row ?r (price_row.truncate ?s))
          (retailer_prices d) =
        unique_together_violated (pk s) (price_row.truncate s) (retailer_prices d)"
    by (rule unique_cong) (simp_all add: stored_price_row_simps truncate_simps)
  ultimately show ?thesis
    using assms(1,2)
    by (auto simp: Model_save_price_def Let_def stored_price_row_simps truncate_simps
        split: option.splits)
qed

lemma save_Inr:
  assumes "RetailerProductPrice_save slugify now self d = Inr (self', d')"
  shows "\<exists>s1 s2 d1 p p'. track_price_changes self d = Inr s1 \<and>
     Model_save_price now s1 d = Inr (s2, d1) \<and> the_product s2 d1 = Inr p \<and>
     update_price_stats slugify now p d1 = Inr (p', d') \<and>
     self' = s2\<lparr>cached_product := Some p'\<rparr>"
  using assms
  by (auto simp: RetailerProductPrice_save_def split: sum.splits prod.splits)

lemma save_eq:
  assumes "track_price_changes self d = Inr s1"
    and "Model_save_price now s1 d = Inr (s2, d1)" and "the_product s2 d1 = Inr p"
    and "update_price_stats slugify now p d1 = Inr (p', d')"
  shows "RetailerProductPrice_save slugify now self d = Inr (s2\<lparr>cached_product := Some p'\<rparr>, d')"
  using assms by (simp add: RetailerProductPrice_save_def)

lemma track_price_changes_Inr:
  assumes "track_price_changes self d = Inr s1"
  shows "s1 = self\<lparr>previous_price :=
           (case pk self of
              None \<Rightarrow> previous_price self
            | Some k \<Rightarrow>
                if k = 0 then previous_price self
                else (case map_of (retailer_prices d) k of
                        None \<Rightarrow> previous_price self
                      | Some old \<Rightarrow>
                          if price old = price self then previous_price self
                          else Some (price old)))\<rparr>"
  using assms
  by (auto simp: track_price_changes_def split: option.splits if_splits)

lemma save_effect:
  assumes "RetailerProductPrice_save slugify now self d = Inr (self', d')"
  shows "price_history d' = price_history d \<and>
     previous_price self' =
       (case pk self of
          None \<Rightarrow> previous_price self
        | Some k \<Rightarrow>
            if k = 0 then previous_price self
            else (case map_of (retailer_prices d) k of
                    None \<Rightarrow> previous_price self
                  | Some old \<Rightarrow>
                      if price old = price self then previous_price self
                      else Some (price old))) \<and>
     price self' = price self \<and>
     (\<exists>k. pk self' = Some k \<and>
          map_of (retailer_prices d') k =
            Some (stored_price_row (decimal_rounding d) (price_row.truncate self')))"
proof -
  from save_Inr[OF assms] obtain s1 s2 d1 p p' where
    t: "track_price_changes self d = Inr s1" and
    m: "Model_save_price now s1 d = Inr (s2, d1)" and
    u: "update_price_stats slugify now p d1 = Inr (p', d')" and
    self': "self' = s2\<lparr>cached_product := Some p'\<rparr>"
    by blast
  note s1 = track_price_changes_Inr[OF t]
  from Model_save_price_Inr(1)[OF m] obtain k where
    k: "pk s2 = Some k" and
    s2: "s2 = s1\<lparr>price_updated_at := now, last_checked := now, pk := Some k\<rparr>" and
    stored: "map_of (retailer_prices d1) k =
               Some (stored_price_row (decimal_rounding d) (price_row.truncate s2))"
    by blast
  have h: "price_history d' = price_history d"
    using update_price_stats_tables(2)[OF u] Model_save_price_Inr(3)[OF m] by simp
  have pp: "previous_price self' = previous_price s1" "price self' = price s1"
    by (simp_all add: self' s2)
  have "pk self' = Some k" by (simp add: self' k)
  moreover have "map_of (retailer_prices d') k =
      Some (stored_price_row (decimal_rounding d) (price_row.truncate self'))"
    using stored update_price_stats_tables(1)[OF u] by (simp add: self' truncate_more)
  ultimately have ex: "\<exists>k. pk self' = Some k \<and>
          map_of (retailer_prices d') k =
            Some (stored_price_row (decimal_rounding d) (price_row.truncate self'))" by blast
  have "previous_price s1 = (case pk self of
          None \<Rightarrow> previous_price self
        | Some k \<Rightarrow>
            if k = 0 then previous_price self
            else (case map_of (retailer_prices d) k of
                    None \<Rightarrow> previous_price self
                  | Some old \<Rightarrow>
                      if price old = price self then previous_price self
                      else Some (price old)))" and "price s1 = price self"
    by (subst s1, simp)+
  with h pp ex show ?thesis by simp
qed

lemma get_product_ex:
  assumes "list_ex (\<lambda>p. prod_id p = k) (products d)"
  shows "\<exists>p. get_product d k = Inr p \<and> prod_id p = k"
proof -
  from assms obtain p where "find (\<lambda>p. prod_id p = k) (products d) = Some p"
    by (cases "find (\<lambda>p. prod_id p = k) (products d)") (auto simp: find_None_iff list_ex_iff)
  moreover from this have "prod_id p = k" by (auto simp: find_Some_iff)
  ultimately show ?thesis by (simp add: get_product_def)
qed

lemma the_product_ex:
  assumes "list_ex (\<lambda>p. prod_id p = product_id s) (products d)"
  shows "\<exists>p. the_product s d = Inr p \<and> prod_id p = product_id s"
  using get_product_ex[OF assms]
  by (auto simp: the_product_def split: option.splits)

lemma the_product_id:
  assumes "the_product s d = Inr p"
  shows "prod_id p = product_id s"
proof -
  have "prod_id r = k" if "get_product d k = Inr r" for r k
    using that by (auto simp: get_product_def find_Some_iff split: option.splits)
  with assms show ?thesis
    by (auto simp: the_product_def split: option.splits if_splits)
qed

text \<open>
  The statistics of prices that fit their column can be stored: lowest and highest fit it
  too, and the average, which is the exact mean rounded by the context, lies between them.
\<close>

lemma stats_between:
  assumes "ps \<noteq> []" and "list_all fits_column ps" and "length ps < 10 ^ 18"
  shows "fits_column (Min (set ps))" and "fits_column (Max (set ps))"
    and "round_ctx (py_sum ps / of_nat (length ps)) =
         round_ctx (sum_list ps / of_nat (length ps))"
    and "Min (set ps) \<le> round_ctx (py_sum ps / of_nat (length ps))"
    and "round_ctx (py_sum ps / of_nat (length ps)) \<le> Max (set ps)"
proof -
  define lo where "lo = Min (set ps)"
  define hi where "hi = Max (set ps)"
  define m where "m = sum_list ps / of_nat (length ps)"
  have "lo \<in> set ps" unfolding lo_def using assms(1) by (intro Min_in) simp_all
  then have flo: "fits_column lo" using assms(2) by (simp add: list_all_iff)
  have "hi \<in> set ps" unfolding hi_def using assms(1) by (intro Max_in) simp_all
  then have fhi: "fits_column hi" using assms(2) by (simp add: list_all_iff)
  from hundredths[OF flo] obtain L where L: "lo * 100 = of_int L" ..
  from hundredths[OF fhi] obtain H where H: "hi * 100 = of_int H" ..
  have between: "lo \<le> m" "m \<le> hi"
    using mean_between[OF assms(1)] by (simp_all add: lo_def hi_def m_def)
  have "\<bar>m\<bar> < 10 ^ 8"
    using between fits_column_bound[OF flo] fits_column_bound[OF fhi] by linarith
  then have bm: "\<bar>m\<bar> < 10 ^ 26" by simp
  have ord: "lo \<le> round_ctx m \<and> round_ctx m \<le> hi"
    by (rule round_ctx_between[OF L H between bm])
  have sm: "py_sum ps = sum_list ps" by (rule py_sum_exact[OF assms(2,3)])
  show "fits_column (Min (set ps))" using flo by (simp add: lo_def)
  show "fits_column (Max (set ps))" using fhi by (simp add: hi_def)
  show "round_ctx (py_sum ps / of_nat (length ps)) =
         round_ctx (sum_list ps / of_nat (length ps))" by (simp only: sm)
  show "Min (set ps) \<le> round_ctx (py_sum ps / of_nat (length ps))"
    using ord by (simp add: sm m_def lo_def)
  show "round_ctx (py_sum ps / of_nat (length ps)) \<le> Max (set ps)"
    using ord by (simp add: sm m_def hi_def)
qed

lemma slug_taken_cong:
  assumes "prod_id q = prod_id p" and "slug q = slug p"
  shows "slug_taken q rows = slug_taken p rows"
  using assms by (simp add: slug_taken_def)

lemma update_price_stats_ok:
  assumes "list_all fits_column (available_prices d (prod_id p))"
    and "length (available_prices d (prod_id p)) < 10 ^ 18"
    and "created_at p \<noteq> None \<or> \<not> list_ex (\<lambda>r. prod_id r = prod_id p) (products d)"
    and "\<not> slug_taken (p\<lparr>slug := (if slug p = [] then slugify (name p) else slug p)\<rparr>) (products d)"
  shows "\<exists>p' d'. update_price_stats slugify now p d = Inr (p', d')"
proof (cases "available_prices d (prod_id p) = []")
  case True
  then show ?thesis by (simp add: update_price_stats_empty)
next
  case False
  define ps where "ps = available_prices d (prod_id p)"
  define q where "q = p\<lparr>lowest_price := Some (Min (set ps)),
              highest_price := Some (Max (set ps)),
              average_price := Some (round_ctx (py_sum ps / of_nat (length ps)))\<rparr>"
  have ne: "ps \<noteq> []" using False by (simp add: ps_def)
  note sb = stats_between[OF ne assms(1,2)[folded ps_def]]
  have db: "product_to_db (decimal_rounding d) q = Inr (stored_product (decimal_rounding d) q)"
    by (rule product_to_db_stats(1)[OF _ _ _ sb(1,2,4,5)]) (simp_all add: q_def)
  have c: "created_at q \<noteq> None \<or> \<not> list_ex (\<lambda>r. prod_id r = prod_id q) (products d)"
    using assms(3) by (simp add: q_def)
  have "slug_taken (q\<lparr>slug := (if slug q = [] then slugify (name q) else slug q)\<rparr>) (products d) =
        slug_taken (p\<lparr>slug := (if slug p = [] then slugify (name p) else slug p)\<rparr>) (products d)"
    by (rule slug_taken_cong) (simp_all add: q_def)
  with assms(4) have s: "\<not> slug_taken (q\<lparr>slug := (if slug q = [] then slugify (name q) else slug q)\<rparr>)
      (products d)" by simp
  from Product_save_ok[where slugify=slugify and now=now, OF db c s] show ?thesis
    by (simp add: update_price_stats_nonempty[OF ps_def[symmetric] ne] q_def)
qed

lemma available_prices_fit:
  assumes "list_all (\<lambda>(i, r). fits_column (price r)) (retailer_prices d)"
  shows "list_all fits_column (available_prices d k)"
  using assms by (auto simp: available_prices_def list_all_iff)

lemma length_available_prices: "length (available_prices d k) \<le> length (retailer_prices d)"
  by (simp add: available_prices_def)

lemma set_update_subset: "set (AList.update k v al) \<subseteq> insert (k, v) (set al)"
  by (induction al) auto

lemma length_update: "length (AList.update k v al) \<le> Suc (length al)"
  by (induction al) auto

text \<open>The price table is still one that a database can hold after a row has been saved.\<close>

lemma Model_save_price_table:
  assumes "Model_save_price now s d = Inr (s2, d1)"
    and "list_all (\<lambda>(i, r). fits_column (price r)) (retailer_prices d)"
  shows "list_all (\<lambda>(i, r). fits_column (price r)) (retailer_prices d1)"
    and "length (retailer_prices d1) \<le> Suc (length (retailer_prices d))"
proof -
  let ?r = "decimal_rounding d"
  let ?row = "stored_price_row ?r (price_row.truncate s2)"
  from Model_save_price_Inr(1)[OF assms(1)] obtain k where
    s2: "s2 = s\<lparr>price_updated_at := now, last_checked := now, pk := Some k\<rparr>" and
    tbl: "retailer_prices d1 =
             (case pk s of
                Some k' \<Rightarrow> AList.update k' ?row (retailer_prices d)
              | None \<Rightarrow> retailer_prices d @ [(k, ?row)])"
    by blast
  have "price_row.truncate s2 = price_row.truncate (s\<lparr>price_updated_at := now, last_checked := now\<rparr>)"
    by (subst s2) (simp add: truncate_more)
  with price_row_to_db_Inr(2)[OF Model_save_price_Inr(7)[OF assms(1)]]
  have f: "fits_column (price ?row)" by simp
  have sub: "set (retailer_prices d1) \<subseteq> insert (k, ?row) (set (retailer_prices d))"
  proof (cases "pk s")
    case None
    with tbl show ?thesis by auto
  next
    case (Some k')
    with tbl Model_save_price_Inr(1)[OF assms(1)] s2 show ?thesis
      using set_update_subset[of k' ?row "retailer_prices d"] by auto
  qed
  show "list_all (\<lambda>(i, r). fits_column (price r)) (retailer_prices d1)"
    using sub assms(2) f unfolding list_all_iff by blast
  show "length (retailer_prices d1) \<le> Suc (length (retailer_prices d))"
    using tbl length_update[of _ ?row "retailer_prices d"] by (cases "pk s") simp_all
qed

lemma the_product_cong:
  assumes "cached_product s2 = cached_product s" and "product_id s2 = product_id s"
    and "products d1 = products d"
  shows "the_product s2 d1 = the_product s d"
  by (simp only: the_product_def get_product_def assms)

text \<open>Conditions under which \<^verbatim>\<open>RetailerProductPrice.save\<close> returns.\<close>

lemma save_ok:
  assumes t: "track_price_changes self d = Inr s1"
    and fk: "list_ex (\<lambda>p. prod_id p = product_id self) (products d)"
    and un: "\<not> unique_together_violated (pk self) (price_row.truncate self) (retailer_prices d)"
    and row: "price_row_to_db (decimal_rounding d) (price_row.truncate s1) = Inr row"
    and tbl: "price_table_ok d"
    and p: "the_product self d = Inr p" and c: "created_at p \<noteq> None"
    and sl: "\<not> slug_taken (p\<lparr>slug := (if slug p = [] then slugify (name p) else slug p)\<rparr>)
               (products d)"
  shows "\<exists>self' d'. RetailerProductPrice_save slugify now self d = Inr (self', d')"
proof -
  note s1 = track_price_changes_Inr[OF t]
  have same: "product_id s1 = product_id self" "pk s1 = pk self" "retailer s1 = retailer self"
    "small_retailer s1 = small_retailer self" "cached_product s1 = cached_product self"
    by (subst s1, simp)+
  have "unique_together_violated (pk s1) (price_row.truncate s1) (retailer_prices d) =
        unique_together_violated (pk self) (price_row.truncate self) (retailer_prices d)"
    unfolding same(2) by (rule unique_cong) (simp_all add: truncate_simps same)
  with fk un same(1) row obtain s2 d1 where m: "Model_save_price now s1 d = Inr (s2, d1)"
    using Model_save_price_ok[of s1 d row now] by auto
  from Model_save_price_Inr(1)[OF m] obtain k where
    s2: "s2 = s1\<lparr>price_updated_at := now, last_checked := now, pk := Some k\<rparr>" by blast
  have pr: "products d1 = products d" by (rule Model_save_price_Inr(2)[OF m])
  have "the_product s2 d1 = the_product self d"
    by (rule the_product_cong) (simp_all add: s2 same pr)
  with p have tp: "the_product s2 d1 = Inr p" by simp
  from tbl have t1: "list_all (\<lambda>(i, r). fits_column (price r)) (retailer_prices d)"
    and t2: "length (retailer_prices d) < 10 ^ 17" by (simp_all add: price_table_ok_def)
  note t' = Model_save_price_table[OF m t1]
  have a1: "list_all fits_column (available_prices d1 (prod_id p))"
    by (rule available_prices_fit[OF t'(1)])
  have "length (available_prices d1 (prod_id p)) \<le> Suc (length (retailer_prices d))"
    using length_available_prices[of d1 "prod_id p"] t'(2) by simp
  with t2 have a2: "length (available_prices d1 (prod_id p)) < 10 ^ 18" by simp
  have a3: "created_at p \<noteq> None \<or> \<not> list_ex (\<lambda>r. prod_id r = prod_id p) (products d1)"
    using c by simp
  have a4: "\<not> slug_taken (p\<lparr>slug := (if slug p = [] then slugify (name p) else slug p)\<rparr>)
               (products d1)" using sl by (simp add: pr)
  from update_price_stats_ok[where slugify=slugify and now=now, OF a1 a2 a3 a4] obtain p' d' where
    u: "update_price_stats slugify now p d1 = Inr (p', d')" by blast
  from save_eq[OF t m tp u] show ?thesis by blast
qed

lemma instance_of_simps:
  "pk (instance_of k row) = k" "cached_product (instance_of k row) = None"
  "price_row.truncate (instance_of k row) = row"
  "product_id (instance_of k row) = product_id row" "retailer (instance_of k row) = retailer row"
  "small_retailer (instance_of k row) = small_retailer row" "price (instance_of k row) = price row"
  "previous_price (instance_of k row) = previous_price row"
  "is_available (instance_of k row) = is_available row"
  "shipping_cost (instance_of k row) = shipping_cost row"
  by (simp_all add: instance_of_def price_row.defs retailer_product_price.defs)

lemma shop_simps:
  "products (shop rows) = [widget]" "retailer_prices (shop rows) = rows"
  "price_history (shop rows) = []" "decimal_rounding (shop rows) = ROUND_HALF_EVEN"
  by (simp_all add: shop_def)

lemma offer_simps:
  "product_id (offer r s p c a) = 1" "retailer (offer r s p c a) = r"
  "small_retailer (offer r s p c a) = s" "price (offer r s p c a) = p"
  "currency (offer r s p c a) = c" "is_available (offer r s p c a) = a"
  "previous_price (offer r s p c a) = None" "shipping_cost (offer r s p c a) = 499 / 100"
  by (simp_all add: offer_def)

lemma widget_id: "prod_id widget = 1"
  by (simp add: widget_def)

lemmas sample_simps = instance_of_simps shop_simps offer_simps widget_id

lemma fits_shipping_example: "fits_shipping_column (499 / 100)"
  by code_simp

lemma stored_offer:
  assumes "fits_column p"
  shows "stored_price_row r (offer x y p c a) = offer x y p c a"
    and "price_row_to_db r (offer x y p c a) = Inr (offer x y p c a)"
  using assms
  by (simp_all add: stored_price_row_fits price_row_to_db_fits offer_simps fits_shipping_example)

text \<open>
  In a shop with the one product, a save returns when the instance is for that product,
  its price can be stored, and the price table is one that a database can hold.
\<close>

lemma shop_save_ok:
  assumes t: "track_price_changes (instance_of k (offer x y p c a)) (shop rows) = Inr s1"
    and un: "\<not> unique_together_violated k (offer x y p c a) rows"
    and f: "to_column ROUND_HALF_EVEN 10 2 p = Inr p'"
    and pp: "case previous_price s1 of None \<Rightarrow> True | Some v \<Rightarrow> fits_column v"
    and tbl: "price_table_ok (shop rows)"
  shows "\<exists>self' d'. RetailerProductPrice_save slugify now (instance_of k (offer x y p c a))
           (shop rows) = Inr (self', d')"
proof -
  let ?i = "instance_of k (offer x y p c a)"
  note s1 = track_price_changes_Inr[OF t]
  have cols: "price s1 = p" "shipping_cost s1 = 499 / 100"
    by (subst s1, simp add: sample_simps)+
  have row: "price_row_to_db (decimal_rounding (shop rows)) (price_row.truncate s1) =
               Inr (stored_price_row (decimal_rounding (shop rows)) (price_row.truncate s1))"
  proof (rule price_row_to_db_ok)
    show "to_column (decimal_rounding (shop rows)) 10 2 (price (price_row.truncate s1)) = Inr p'"
      unfolding truncate_simps cols shop_simps by (rule f)
    show "to_column (decimal_rounding (shop rows)) 8 2 (shipping_cost (price_row.truncate s1)) =
          Inr (499 / 100)"
      unfolding truncate_simps cols by (rule to_shipping_column_fits[OF fits_shipping_example])
    show "to_nullable_column (decimal_rounding (shop rows)) 10 2
            (previous_price (price_row.truncate s1)) = Inr (previous_price s1)"
      unfolding truncate_simps by (rule to_nullable_column_fits[OF pp])
  qed
  have fk: "list_ex (\<lambda>p. prod_id p = product_id ?i) (products (shop rows))"
    by (simp add: sample_simps)
  have un': "\<not> unique_together_violated (pk ?i) (price_row.truncate ?i) (retailer_prices (shop rows))"
    using un by (simp add: sample_simps)
  have p: "the_product ?i (shop rows) = Inr widget"
    by (simp add: the_product_def get_product_def sample_simps)
  have c: "created_at widget \<noteq> None" by (simp add: widget_def)
  have sl: "\<not> slug_taken (widget\<lparr>slug := (if slug widget = [] then slugify (name widget)
                                         else slug widget)\<rparr>) (products (shop rows))"
    by (simp add: slug_taken_def sample_simps)
  from save_ok[where slugify=slugify and now=now, OF t fk un' row tbl p c sl] show ?thesis .
qed

lemma first_save_succeeds:
  assumes "fits_column p"
  shows "\<exists>self' d'. RetailerProductPrice_save slugify now (instance_of None (offer r s p c a))
           (shop []) = Inr (self', d')"
proof -
  let ?n = "instance_of None (offer r s p c a)"
  have t: "track_price_changes ?n (shop []) = Inr ?n"
    by (simp add: track_price_changes_def sample_simps)
  have un: "\<not> unique_together_violated None (offer r s p c a) []"
    by (simp add: unique_together_violated_def)
  have pp: "case previous_price ?n of None \<Rightarrow> True | Some v \<Rightarrow> fits_column v"
    by (simp add: sample_simps)
  have tbl: "price_table_ok (shop [])" by (simp add: price_table_ok_def sample_simps)
  from shop_save_ok[OF t un to_column_fits[OF assms] pp tbl] show ?thesis .
qed

lemma save_columns:
  assumes "RetailerProductPrice_save slugify now self d = Inr (self', d')"
  shows "product_id self' = product_id self" "retailer self' = retailer self"
    "small_retailer self' = small_retailer self" "currency self' = currency self"
    "is_available self' = is_available self" "shipping_cost self' = shipping_cost self"
proof -
  from save_Inr[OF assms] obtain s1 s2 d1 p p' where
    t: "track_price_changes self d = Inr s1" and
    m: "Model_save_price now s1 d = Inr (s2, d1)" and
    self': "self' = s2\<lparr>cached_product := Some p'\<rparr>"
    by blast
  note s1 = track_price_changes_Inr[OF t]
  from Model_save_price_Inr(1)[OF m] obtain k where
    s2: "s2 = s1\<lparr>price_updated_at := now, last_checked := now, pk := Some k\<rparr>"
    by blast
  have a: "product_id s1 = product_id self" "retailer s1 = retailer self"
    "small_retailer s1 = small_retailer self" "currency s1 = currency self"
    "is_available s1 = is_available self" "shipping_cost s1 = shipping_cost self"
    by (subst s1, simp)+
  show "product_id self' = product_id self" "retailer self' = retailer self"
    "small_retailer self' = small_retailer self" "currency self' = currency self"
    "is_available self' = is_available self" "shipping_cost self' = shipping_cost self"
    by (simp_all add: self' s2 a)
qed


section \<open>Facts about rounding twice\<close>

lemma round_half_even_within:
  assumes "of_int N - 1 / 2 < z" and "z < of_int N + 1 / 2"
  shows "round_half_even z = N"
proof -
  have fl: "of_int \<lfloor>z\<rfloor> \<le> z" "z < of_int \<lfloor>z\<rfloor> + 1" by linarith+
  have "\<lfloor>z\<rfloor> = N \<or> \<lfloor>z\<rfloor> = N - 1"
  proof -
    have "of_int \<lfloor>z\<rfloor> < (of_int N :: rat) + 1" using assms fl by linarith
    then have "(of_int \<lfloor>z\<rfloor> :: rat) < of_int (N + 1)" by simp
    then have a: "\<lfloor>z\<rfloor> < N + 1" by (simp only: of_int_less_iff)
    have "(of_int N :: rat) - 2 < of_int \<lfloor>z\<rfloor>" using assms fl by linarith
    then have "(of_int (N - 2) :: rat) < of_int \<lfloor>z\<rfloor>" by simp
    then have b: "N - 2 < \<lfloor>z\<rfloor>" by (simp only: of_int_less_iff)
    from a b show ?thesis by linarith
  qed
  then show ?thesis
  proof
    assume f: "\<lfloor>z\<rfloor> = N"
    with assms have "z - of_int \<lfloor>z\<rfloor> < 1 / 2" by simp
    then show ?thesis by (simp add: round_half_even_def Let_def f)
  next
    assume f: "\<lfloor>z\<rfloor> = N - 1"
    with assms have "1 / 2 < z - of_int \<lfloor>z\<rfloor>" by simp
    then show ?thesis by (simp add: round_half_even_def Let_def f)
  qed
qed

lemma round_half_up_within:
  assumes "of_int N - 1 / 2 < z" and "z < of_int N + 1 / 2"
  shows "round_half_up z = N"
proof (cases "0 \<le> z")
  case True
  have "\<lfloor>z + 1 / 2\<rfloor> = N" using assms by (intro floor_unique) simp_all
  with True show ?thesis by (simp add: round_half_up_def)
next
  case False
  have "\<lfloor>- z + 1 / 2\<rfloor> = - N" using assms by (intro floor_unique) simp_all
  with False show ?thesis by (simp add: round_half_up_def)
qed

lemma round_half_even_near:
  "of_int (round_half_even z) - 1 / 2 \<le> z \<and> z \<le> of_int (round_half_even z) + 1 / 2"
proof -
  have fl: "of_int \<lfloor>z\<rfloor> \<le> z" "z < of_int \<lfloor>z\<rfloor> + 1" by linarith+
  show ?thesis
  proof (cases "z - of_int \<lfloor>z\<rfloor> < 1 / 2")
    case True
    then have r: "round_half_even z = \<lfloor>z\<rfloor>" by (simp add: round_half_even_def Let_def)
    from True fl show ?thesis unfolding r by linarith
  next
    case False
    then have h: "1 / 2 \<le> z - of_int \<lfloor>z\<rfloor>" by simp
    from round_half_even_cases[of z] show ?thesis
    proof
      assume r: "round_half_even z = \<lfloor>z\<rfloor>"
      from h fl have "z - of_int \<lfloor>z\<rfloor> = 1 / 2 \<or> 1 / 2 < z - of_int \<lfloor>z\<rfloor>" by linarith
      then show ?thesis
      proof
        assume "z - of_int \<lfloor>z\<rfloor> = 1 / 2"
        then show ?thesis unfolding r by linarith
      next
        assume "1 / 2 < z - of_int \<lfloor>z\<rfloor>"
        then have "round_half_even z = \<lfloor>z\<rfloor> + 1" by (simp add: round_half_even_def Let_def)
        with r show ?thesis by simp
      qed
    next
      assume "round_half_even z = \<lfloor>z\<rfloor> + 1 \<and> 1 / 2 \<le> z - of_int \<lfloor>z\<rfloor>"
      then have r: "of_int (round_half_even z) = (of_int \<lfloor>z\<rfloor> :: rat) + 1" by simp
      from h fl show ?thesis unfolding r by linarith
    qed
  qed
qed

lemma round_half_up_near:
  "of_int (round_half_up z) - 1 / 2 \<le> z \<and> z \<le> of_int (round_half_up z) + 1 / 2"
proof (cases "0 \<le> z")
  case True
  have "of_int \<lfloor>z + 1 / 2\<rfloor> \<le> z + 1 / 2" "z + 1 / 2 < of_int \<lfloor>z + 1 / 2\<rfloor> + 1" by linarith+
  then have "of_int \<lfloor>z + 1 / 2\<rfloor> - 1 / 2 \<le> z \<and> z \<le> of_int \<lfloor>z + 1 / 2\<rfloor> + 1 / 2"
    by linarith
  with True show ?thesis by (simp only: round_half_up_def if_True)
next
  case False
  have "of_int \<lfloor>- z + 1 / 2\<rfloor> \<le> - z + 1 / 2" "- z + 1 / 2 < of_int \<lfloor>- z + 1 / 2\<rfloor> + 1"
    by linarith+
  then have "- of_int \<lfloor>- z + 1 / 2\<rfloor> - 1 / 2 \<le> z \<and> z \<le> - of_int \<lfloor>- z + 1 / 2\<rfloor> + 1 / 2"
    by linarith
  then have "of_int (- \<lfloor>- z + 1 / 2\<rfloor>) - 1 / 2 \<le> z \<and> z \<le> of_int (- \<lfloor>- z + 1 / 2\<rfloor>) + 1 / 2"
    by (simp only: of_int_minus)
  with False show ?thesis by (simp only: round_half_up_def if_False)
qed


lemma quantize_round_ctx:
  assumes S: "m * 100 * of_nat n = of_int S" and n: "0 < n" "n < 10 ^ 17" and b: "\<bar>m\<bar> < 10 ^ 8"
  shows "quantize r 2 (round_ctx m) = quantize r 2 m"
proof -
  let ?f = "case r of ROUND_HALF_EVEN \<Rightarrow> round_half_even | ROUND_HALF_UP \<Rightarrow> round_half_up"
  define y where "y = m * 100"
  define N where "N = ?f y"
  have near: "of_int N - 1 / 2 \<le> y \<and> y \<le> of_int N + 1 / 2"
    unfolding N_def by (cases r) (simp_all add: round_half_even_near round_half_up_near)
  have within: "?f z = N" if "of_int N - 1 / 2 < z" "z < of_int N + 1 / 2" for z
    using that by (cases r) (simp_all add: round_half_even_within round_half_up_within)
  have q: "quantize r 2 x = of_int (?f (x * 100)) / 100" for x
    by (simp add: quantize_def)
  have m: "m = y / 100" by (simp add: y_def)
  have yn: "y * of_nat n = of_int S" using S by (simp add: y_def)
  have npos: "(0::rat) < of_nat n" using n(1) by simp
  have "(of_nat n :: rat) < of_nat (10 ^ 17)" using n(2) by (simp only: of_nat_less_iff)
  then have nle: "(of_nat n :: rat) \<le> 10 ^ 17" by simp
  consider (tie) "y = of_int N - 1 / 2 \<or> y = of_int N + 1 / 2"
    | (inside) "of_int N - 1 / 2 < y" "y < of_int N + 1 / 2"
    using near by linarith
  then have "?f (round_ctx m * 100) = N"
  proof cases
    case tie
    then have "m * 10 ^ 3 = of_int (10 * N - 5) \<or> m * 10 ^ 3 = of_int (10 * N + 5)"
      by (auto simp: m)
    then obtain L where L: "m * 10 ^ 3 = of_int L" by blast
    have "\<bar>m\<bar> < 10 ^ (28 - 3)" using b by simp
    from round_ctx_exact_places[OF L this] have "round_ctx m = m" by simp
    then show ?thesis by (simp add: N_def y_def)
  next
    case inside
    define t where "t = 2 * y - (2 * of_int N - 1)"
    define u where "u = (2 * of_int N + 1) - 2 * y"
    have tpos: "0 < t" and upos: "0 < u" using inside by (simp_all add: t_def u_def)
    have "t * of_nat n = of_int (2 * S - (2 * N - 1) * int n)"
      by (simp add: t_def algebra_simps yn[symmetric])
    moreover have "0 < t * of_nat n" using tpos npos by simp
    ultimately have "(0::rat) < of_int (2 * S - (2 * N - 1) * int n)" by simp
    then have "0 < 2 * S - (2 * N - 1) * int n" by (simp only: of_int_0_less_iff)
    then have "1 \<le> 2 * S - (2 * N - 1) * int n" by simp
    then have "(1::rat) \<le> of_int (2 * S - (2 * N - 1) * int n)" by (simp only: of_int_1_le_iff)
    then have "1 \<le> t * of_nat n"
      by (simp add: t_def algebra_simps yn[symmetric])
    also have "t * of_nat n \<le> t * 10 ^ 17"
      using tpos nle by (intro mult_left_mono) simp_all
    finally have t17: "1 \<le> t * 10 ^ 17" .
    have "u * of_nat n = of_int ((2 * N + 1) * int n - 2 * S)"
      by (simp add: u_def algebra_simps yn[symmetric])
    moreover have "0 < u * of_nat n" using upos npos by simp
    ultimately have "(0::rat) < of_int ((2 * N + 1) * int n - 2 * S)" by simp
    then have "0 < (2 * N + 1) * int n - 2 * S" by (simp only: of_int_0_less_iff)
    then have "1 \<le> (2 * N + 1) * int n - 2 * S" by simp
    then have "(1::rat) \<le> of_int ((2 * N + 1) * int n - 2 * S)" by (simp only: of_int_1_le_iff)
    then have "1 \<le> u * of_nat n"
      by (simp add: u_def algebra_simps yn[symmetric])
    also have "u * of_nat n \<le> u * 10 ^ 17"
      using upos nle by (intro mult_left_mono) simp_all
    finally have u17: "1 \<le> u * 10 ^ 17" .
    define lo where "lo = (2 * of_int N - 1) / 200 + 1 / (10 ^ 20 :: rat)"
    define hi where "hi = (2 * of_int N + 1) / 200 - 1 / (10 ^ 20 :: rat)"
    have lo: "lo * 10 ^ 20 = of_int ((2 * N - 1) * (5 * 10 ^ 17) + 1)"
      by (simp add: lo_def algebra_simps add_divide_distrib diff_divide_distrib)
    have hi: "hi * 10 ^ 20 = of_int ((2 * N + 1) * (5 * 10 ^ 17) - 1)"
      by (simp add: hi_def algebra_simps add_divide_distrib diff_divide_distrib)
    have "1 / 10 ^ 17 \<le> t" using t17 by (simp add: pos_divide_le_eq)
    then have ylo: "of_int N - 1 / 2 + 1 / 10 ^ 18 \<le> y" unfolding t_def by simp
    have "1 / 10 ^ 17 \<le> u" using u17 by (simp add: pos_divide_le_eq)
    then have yhi: "y \<le> of_int N + 1 / 2 - 1 / 10 ^ 18" unfolding u_def by simp
    have "lo = (of_int N - 1 / 2 + 1 / 10 ^ 18) / 100"
      by (simp add: lo_def add_divide_distrib diff_divide_distrib)
    also have "\<dots> \<le> y / 100" using ylo by (intro divide_right_mono) simp_all
    finally have lom: "lo \<le> m" by (simp only: m)
    have "m = y / 100" by (rule m)
    also have "\<dots> \<le> (of_int N + 1 / 2 - 1 / 10 ^ 18) / 100"
      using yhi by (intro divide_right_mono) simp_all
    also have "\<dots> = hi"
      by (simp add: hi_def add_divide_distrib diff_divide_distrib)
    finally have mhi: "m \<le> hi" .
    have bb: "\<bar>m\<bar> < 10 ^ (28 - 20)" using b by simp
    from round_ctx_between_places[OF lo hi lom mhi bb]
    have "lo \<le> round_ctx m" "round_ctx m \<le> hi" by simp_all
    then have "((2 * of_int N - 1) / 200 + 1 / 10 ^ 20) * 100 \<le> round_ctx m * 100"
      "round_ctx m * 100 \<le> ((2 * of_int N + 1) / 200 - 1 / 10 ^ 20) * 100"
      unfolding lo_def hi_def by (simp_all only: mult_le_cancel_right_pos zero_less_numeral)
    then have "of_int N - 1 / 2 + 1 / 10 ^ 18 \<le> round_ctx m * 100"
      "round_ctx m * 100 \<le> of_int N + 1 / 2 - 1 / 10 ^ 18"
      by (simp_all add: algebra_simps add_divide_distrib diff_divide_distrib)
    then have "of_int N - 1 / 2 < round_ctx m * 100" "round_ctx m * 100 < of_int N + 1 / 2"
      by simp_all
    then show ?thesis by (rule within)
  qed
  then show ?thesis by (simp add: q N_def y_def)
qed

lemma quantize_half_up:
  "quantize ROUND_HALF_UP 2 m =
     (if 0 \<le> m then of_int \<lfloor>m * 100 + 1 / 2\<rfloor> / 100
      else - (of_int \<lfloor>- m * 100 + 1 / 2\<rfloor> / 100))"
proof (cases "0 \<le> m")
  case True
  then have "0 \<le> m * 10 ^ 2" by simp
  with True show ?thesis by (simp add: quantize_def round_half_up_def)
next
  case False
  then have "\<not> 0 \<le> m * 10 ^ 2" by simp
  with False show ?thesis by (simp add: quantize_def round_half_up_def)
qed

lemma quantize_half_up_spec:
  "quantize ROUND_HALF_UP 2 (sum_list ps / of_nat (length ps)) = spec_average ps"
  unfolding quantize_half_up spec_average_def Let_def ..

lemma sum_list_hundredths:
  assumes "list_all fits_column xs"
  shows "\<exists>S. sum_list xs * 100 = of_int S"
  using assms
proof (induction xs)
  case Nil
  show ?case by simp
next
  case (Cons x xs)
  then obtain S where S: "sum_list xs * 100 = of_int S" by auto
  from Cons.prems have "fits_column x" by simp
  from hundredths[OF this] obtain L where "x * 100 = of_int L" ..
  with S have "sum_list (x # xs) * 100 = of_int (L + S)" by (simp add: algebra_simps)
  then show ?case ..
qed

text \<open>
  The average that a row holds is the exact mean rounded once, to two places: the
  rounding of the context before it, to 28 digits, does not show.
\<close>

lemma stored_average:
  assumes "ps \<noteq> []" and "list_all fits_column ps" and "length ps < 10 ^ 17"
  shows "quantize r 2 (round_ctx (py_sum ps / of_nat (length ps))) =
         quantize r 2 (sum_list ps / of_nat (length ps))"
proof -
  define m where "m = sum_list ps / of_nat (length ps)"
  have len: "length ps < 10 ^ 18" using assms(3) by simp
  have n: "0 < length ps" using assms(1) by simp
  from sum_list_hundredths[OF assms(2)] obtain S where S: "sum_list ps * 100 = of_int S" ..
  have mS: "m * 100 * of_nat (length ps) = of_int S"
    using n S by (simp add: m_def)
  have lo: "fits_column (Min (set ps))" and hi: "fits_column (Max (set ps))"
    by (rule stats_between[OF assms(1,2) len])+
  have "Min (set ps) \<le> m" "m \<le> Max (set ps)"
    using mean_between[OF assms(1)] by (simp_all add: m_def)
  then have b: "\<bar>m\<bar> < 10 ^ 8"
    using fits_column_bound[OF lo] fits_column_bound[OF hi] by linarith
  have "quantize r 2 (round_ctx m) = quantize r 2 m"
    by (rule quantize_round_ctx[OF mS n assms(3) b])
  then show ?thesis
    by (simp only: stats_between(3)[OF assms(1,2) len] m_def)
qed

text \<open>
  \<^verbatim>\<open>update_price_stats\<close> evaluated on a database that holds one product, for an object
  with the key of that product, when the mean of the available prices has few decimal
  places.
\<close>

lemma single_update_price_stats:
  assumes pr: "products d = [w]" and id: "prod_id w = prod_id p"
    and sl: "slug p \<noteq> []" and cr: "created_at p \<noteq> None"
    and av: "available_prices d (prod_id p) = ps" and ne: "ps \<noteq> []"
    and fits: "list_all fits_column ps" and len: "length ps < 10 ^ 18"
    and m: "sum_list ps / of_nat (length ps) = m" and L: "m * 10 ^ j = of_int L" and j: "j \<le> 20"
  shows "update_price_stats slugify now p d =
     Inr (p\<lparr>lowest_price := Some (Min (set ps)), highest_price := Some (Max (set ps)),
            average_price := Some m, updated_at := now\<rparr>,
          d\<lparr>products :=
              [p\<lparr>lowest_price := Some (Min (set ps)), highest_price := Some (Max (set ps)),
                 average_price := Some (quantize (decimal_rounding d) 2 m),
                 updated_at := now\<rparr>]\<rparr>)"
proof -
  let ?r = "decimal_rounding d"
  define q where "q = p\<lparr>lowest_price := Some (Min (set ps)),
      highest_price := Some (Max (set ps)), average_price := Some m\<rparr>"
  define q' where "q' = q\<lparr>updated_at := now\<rparr>"
  have lo: "fits_column (Min (set ps))" and hi: "fits_column (Max (set ps))"
    by (rule stats_between[OF ne fits len])+
  have between: "Min (set ps) \<le> m" "m \<le> Max (set ps)"
    using mean_between[OF ne] by (simp_all add: m)
  then have "\<bar>m\<bar> < 10 ^ 8"
    using fits_column_bound[OF lo] fits_column_bound[OF hi] by linarith
  also have "(10::rat) ^ 8 \<le> 10 ^ (28 - j)" using j by (intro power_increasing) simp_all
  finally have b: "\<bar>m\<bar> < 10 ^ (28 - j)" .
  have j': "j \<le> 28" using j by simp
  have run: "update_price_stats slugify now p d = Product_save slugify now q d"
    unfolding q_def by (rule update_price_stats_eval[OF av ne fits len m L b j'])
  have todb: "product_to_db ?r q' = Inr (stored_product ?r q')"
    and st: "stored_product ?r q' = q'\<lparr>average_price := Some (quantize ?r 2 m)\<rparr>"
    by (rule product_to_db_stats[OF _ _ _ lo hi between]; simp add: q'_def q_def)+
  have ex: "list_ex (\<lambda>r. prod_id r = prod_id q) (products d)"
    by (simp add: pr id q_def)
  have sl': "slug q \<noteq> []" using sl by (simp add: q_def)
  have c: "created_at q' \<noteq> None" using cr by (simp add: q'_def q_def)
  have nt: "\<not> slug_taken q' (products d)" by (simp add: slug_taken_def pr id q'_def q_def)
  have w: "write_product (stored_product ?r q') (products d) = [stored_product ?r q']"
    by (simp add: write_product_def pr id stored_product_simps q'_def q_def)
  have "Product_save slugify now q d = Inr (q', d\<lparr>products := [stored_product ?r q']\<rparr>)"
    using sl' ex c nt
    by (simp add: Product_save_def Model_save_product_def Let_def q'_def[symmetric] todb w)
  then show ?thesis
    unfolding run st by (simp add: q'_def q_def)
qed

lemma widget_update_price_stats:
  assumes pr: "products d = [widget]"
    and av: "available_prices d (prod_id widget) = ps" and ne: "ps \<noteq> []"
    and fits: "list_all fits_column ps" and len: "length ps < 10 ^ 18"
    and m: "sum_list ps / of_nat (length ps) = m" and L: "m * 10 ^ j = of_int L" and j: "j \<le> 20"
  shows "update_price_stats slugify now widget d =
     Inr (widget\<lparr>lowest_price := Some (Min (set ps)), highest_price := Some (Max (set ps)),
                 average_price := Some m, updated_at := now\<rparr>,
          d\<lparr>products :=
              [widget\<lparr>lowest_price := Some (Min (set ps)), highest_price := Some (Max (set ps)),
                      average_price := Some (quantize (decimal_rounding d) 2 m),
                      updated_at := now\<rparr>]\<rparr>)"
proof -
  have sl: "slug widget \<noteq> []" and cr: "created_at widget \<noteq> None"
    by (simp_all add: widget_def)
  show ?thesis
    by (rule single_update_price_stats[OF pr refl sl cr av ne fits len m L j])
qed

lemma quantize_examples:
  "quantize ROUND_HALF_EVEN 2 (2001 / 200) = 10"
  "quantize ROUND_HALF_UP 2 (2001 / 200) = 1001 / 100"
  by code_simp+

section \<open>The retention sweep\<close>

text \<open>
  C8. \<^verbatim>\<open>clean_old_price_data\<close> keeps exactly the history rows whose timestamp is not
  before the horizon, 365 days before the current time, in their order; it reports the
  number of rows that were before it; it leaves products and prices alone. Run again at
  the same instant on its own result it deletes nothing and reports 0. The task reads the
  clock each time it runs: a second run at the time \<open>now'\<close> deletes exactly the rows that
  the first run kept and that are before the horizon of \<open>now'\<close>, and reports their number.
\<close>

theorem clean_old_price_data_retention:
  "price_history (snd (clean_old_price_data now d)) =
     filter (\<lambda>(i, h). \<not> timestamp h < now - timedelta_days 365) (price_history d) \<and>
   fst (clean_old_price_data now d) =
     ''Deleted '' @
     str_nat (length (filter (\<lambda>(i, h). timestamp h < now - timedelta_days 365) (price_history d))) @
     '' price history records older than one year.'' \<and>
   products (snd (clean_old_price_data now d)) = products d \<and>
   retailer_prices (snd (clean_old_price_data now d)) = retailer_prices d \<and>
   clean_old_price_data now (snd (clean_old_price_data now d)) =
     (''Deleted 0 price history records older than one year.'', snd (clean_old_price_data now d)) \<and>
   price_history (snd (clean_old_price_data now' (snd (clean_old_price_data now d)))) =
     filter (\<lambda>(i, h). \<not> timestamp h < now - timedelta_days 365 \<and>
                      \<not> timestamp h < now' - timedelta_days 365) (price_history d) \<and>
   fst (clean_old_price_data now' (snd (clean_old_price_data now d))) =
     ''Deleted '' @
     str_nat (length (filter (\<lambda>(i, h). \<not> timestamp h < now - timedelta_days 365 \<and>
                                      timestamp h < now' - timedelta_days 365) (price_history d))) @
     '' price history records older than one year.''"
proof -
  let ?old = "\<lambda>(i :: nat, h). timestamp h < now - timedelta_days 365"
  let ?keep = "\<lambda>x. \<not> ?old x"
  have keep: "(\<lambda>(i :: nat, h). \<not> timestamp h < now - timedelta_days 365) = ?keep"
    by (simp add: fun_eq_iff)
  have again: "filter ?old (filter ?keep (price_history d)) = []"
    by (rule filter_filter_not)
  have idem: "filter ?keep (filter ?keep (price_history d)) = filter ?keep (price_history d)"
    by simp
  have first: "price_history (snd (clean_old_price_data now d)) =
       filter (\<lambda>(i, h). \<not> timestamp h < now - timedelta_days 365) (price_history d)"
    "fst (clean_old_price_data now d) =
     ''Deleted '' @
     str_nat (length (filter (\<lambda>(i, h). timestamp h < now - timedelta_days 365) (price_history d))) @
     '' price history records older than one year.''"
    "products (snd (clean_old_price_data now d)) = products d"
    "retailer_prices (snd (clean_old_price_data now d)) = retailer_prices d"
    by (simp_all add: clean_old_price_data_def Let_def)
  have same: "clean_old_price_data now (snd (clean_old_price_data now d)) =
     (''Deleted 0 price history records older than one year.'', snd (clean_old_price_data now d))"
    using again idem by (simp add: clean_old_price_data_def Let_def keep str_nat_0)
  have later: "price_history (snd (clean_old_price_data now' (snd (clean_old_price_data now d)))) =
     filter (\<lambda>(i, h). \<not> timestamp h < now - timedelta_days 365 \<and>
                      \<not> timestamp h < now' - timedelta_days 365) (price_history d)"
    "fst (clean_old_price_data now' (snd (clean_old_price_data now d))) =
     ''Deleted '' @
     str_nat (length (filter (\<lambda>(i, h). \<not> timestamp h < now - timedelta_days 365 \<and>
                                      timestamp h < now' - timedelta_days 365) (price_history d))) @
     '' price history records older than one year.''"
    by (simp_all add: clean_old_price_data_def Let_def split_def)
  show ?thesis
    using first same later by (simp only: simp_thms)
qed

text \<open>
  A row exactly 365 days old is kept by a run and deleted by a run one microsecond later.
\<close>

theorem clean_old_price_data_second_run_counterexample:
  "clean_old_price_data (timedelta_days 365 + 100) ((shop [])\<lparr>price_history := [(1, entry 100)]\<rparr>) =
     (''Deleted 0 price history records older than one year.'',
      (shop [])\<lparr>price_history := [(1, entry 100)]\<rparr>) \<and>
   clean_old_price_data (timedelta_days 365 + 101) ((shop [])\<lparr>price_history := [(1, entry 100)]\<rparr>) =
     (''Deleted 1 price history records older than one year.'',
      (shop [])\<lparr>price_history := []\<rparr>)"
  by code_simp

section \<open>The price statistics of a product\<close>




text \<open>
  C3. When the product has an available observation and \<^verbatim>\<open>update_price_stats\<close>
  returns, the object has lowest set to the least and highest to the greatest of the
  prices of its available observations (rows of other products and unavailable rows do
  not count, and shipping costs are not read), and average to the quotient of their sum
  by their number as the decimal context gives it, with 28 significant digits: nothing in
  \<^verbatim>\<open>update_price_stats\<close> rounds it to two places. The row of the product holds the three
  values as the column stores them. For prices that fit their column, fewer than
  \<open>10 ^ 17\<close>, the row holds the least and the greatest price as they are, and the exact
  mean rounded to two places with the rounding of the layer that adapts decimals: the
  average of the specification where that rounding is half-up.
\<close>

theorem update_price_stats_values:
  assumes "ps = map (\<lambda>(i, r). price r)
                  (filter (\<lambda>(i, r). product_id r = prod_id self \<and> is_available r)
                     (retailer_prices d))"
    and "ps \<noteq> []"
    and "update_price_stats slugify now self d = Inr (self', d')"
  shows "lowest_price self' = Some (Min (set ps)) \<and>
     highest_price self' = Some (Max (set ps)) \<and>
     average_price self' = Some (round_ctx (py_sum ps / of_nat (length ps))) \<and>
     (\<exists>row. get_product d' (prod_id self) = Inr row \<and>
        lowest_price row = Some (quantize (decimal_rounding d) 2 (Min (set ps))) \<and>
        highest_price row = Some (quantize (decimal_rounding d) 2 (Max (set ps))) \<and>
        average_price row =
          Some (quantize (decimal_rounding d) 2 (round_ctx (py_sum ps / of_nat (length ps)))) \<and>
        (list_all fits_column ps \<and> length ps < 10 ^ 17 \<longrightarrow>
           average_price self' = Some (round_ctx (sum_list ps / of_nat (length ps))) \<and>
           lowest_price row = Some (Min (set ps)) \<and>
           highest_price row = Some (Max (set ps)) \<and>
           average_price row =
             Some (quantize (decimal_rounding d) 2 (sum_list ps / of_nat (length ps))) \<and>
           (decimal_rounding d = ROUND_HALF_UP \<longrightarrow>
              average_price row = Some (spec_average ps))))"
proof -
  let ?r = "decimal_rounding d"
  define avg where "avg = round_ctx (py_sum ps / of_nat (length ps))"
  have av: "available_prices d (prod_id self) = ps"
    using assms(1) by (simp add: available_prices_def)
  note u = update_price_stats_Inr[OF assms(3) av assms(2), folded avg_def]
  have obj: "lowest_price self' = Some (Min (set ps))" "highest_price self' = Some (Max (set ps))"
    "average_price self' = Some avg"
    by (subst u(1), simp)+
  let ?row = "stored_product ?r self'"
  have row: "lowest_price ?row = Some (quantize ?r 2 (Min (set ps)))"
    "highest_price ?row = Some (quantize ?r 2 (Max (set ps)))"
    "average_price ?row = Some (quantize ?r 2 avg)"
    by (simp_all add: stored_product_simps obj)
  have exact: "average_price self' = Some (round_ctx (sum_list ps / of_nat (length ps))) \<and>
           lowest_price ?row = Some (Min (set ps)) \<and>
           highest_price ?row = Some (Max (set ps)) \<and>
           average_price ?row = Some (quantize ?r 2 (sum_list ps / of_nat (length ps))) \<and>
           (?r = ROUND_HALF_UP \<longrightarrow> average_price ?row = Some (spec_average ps))"
    if fits: "list_all fits_column ps" and len: "length ps < 10 ^ 17"
  proof -
    have len': "length ps < 10 ^ 18" using len by simp
    note sb = stats_between[OF assms(2) fits len', folded avg_def]
    have a: "quantize ?r 2 avg = quantize ?r 2 (sum_list ps / of_nat (length ps))"
      unfolding avg_def by (rule stored_average[OF assms(2) fits len])
    have "average_price self' = Some (round_ctx (sum_list ps / of_nat (length ps)))"
      using obj(3) sb(3) by simp
    moreover have "lowest_price ?row = Some (Min (set ps))"
      using row(1) quantize_fits[OF sb(1), of ?r] by simp
    moreover have "highest_price ?row = Some (Max (set ps))"
      using row(2) quantize_fits[OF sb(2), of ?r] by simp
    moreover have "average_price ?row = Some (quantize ?r 2 (sum_list ps / of_nat (length ps)))"
      using row(3) a by simp
    moreover have "average_price ?row = Some (spec_average ps)" if "?r = ROUND_HALF_UP"
      using row(3) a that by (simp add: quantize_half_up_spec)
    ultimately show ?thesis by blast
  qed
  from u(3) row exact
  have "\<exists>row. get_product d' (prod_id self) = Inr row \<and>
        lowest_price row = Some (quantize ?r 2 (Min (set ps))) \<and>
        highest_price row = Some (quantize ?r 2 (Max (set ps))) \<and>
        average_price row = Some (quantize ?r 2 avg) \<and>
        (list_all fits_column ps \<and> length ps < 10 ^ 17 \<longrightarrow>
           average_price self' = Some (round_ctx (sum_list ps / of_nat (length ps))) \<and>
           lowest_price row = Some (Min (set ps)) \<and>
           highest_price row = Some (Max (set ps)) \<and>
           average_price row = Some (quantize ?r 2 (sum_list ps / of_nat (length ps))) \<and>
           (?r = ROUND_HALF_UP \<longrightarrow> average_price row = Some (spec_average ps)))"
    by blast
  with obj show ?thesis unfolding avg_def by blast
qed

theorem update_price_stats_values_witness:
  "\<exists>self' d'. update_price_stats id 200 widget
       (shop [(1, offer (Some 1) None 10 ''USD'' True),
              (2, offer (Some 2) None (1001 / 100) ''USD'' True),
              (3, offer None (Some 1) 1 ''USD'' False)]) = Inr (self', d') \<and>
     lowest_price self' = Some 10 \<and> highest_price self' = Some (1001 / 100) \<and>
     average_price self' = Some (2001 / 200) \<and>
     (\<exists>row. get_product d' (prod_id widget) = Inr row \<and>
        lowest_price row = Some 10 \<and> highest_price row = Some (1001 / 100) \<and>
        average_price row = Some 10)"
proof -
  let ?d = "shop [(1, offer (Some 1) None 10 ''USD'' True),
                  (2, offer (Some 2) None (1001 / 100) ''USD'' True),
                  (3, offer None (Some 1) 1 ''USD'' False)]"
  have ps: "[10, 1001 / 100] = map (\<lambda>(i, r). price r)
                  (filter (\<lambda>(i, r). product_id r = prod_id widget \<and> is_available r)
                     (retailer_prices ?d))"
    by (simp add: shop_def offer_def widget_def)
  have av: "available_prices ?d (prod_id widget) = [10, 1001 / 100]"
    by (simp add: available_prices_def ps)
  have ne: "[10, 1001 / 100 :: decimal] \<noteq> []" by simp
  have fits: "list_all fits_column [10, 1001 / 100]" by (simp add: fits_column_examples)
  have len: "length [10, 1001 / 100 :: decimal] < 10 ^ 18" by simp
  have len': "length [10, 1001 / 100 :: decimal] < 10 ^ 17" by simp
  have m: "sum_list [10, 1001 / 100 :: decimal] / of_nat (length [10, 1001 / 100 :: decimal]) = 2001 / 200"
    by simp
  have L: "(2001 / 200 :: decimal) * 10 ^ 3 = of_int 10005" by simp
  have pr: "products ?d = [widget]" by (simp add: shop_def)
  from widget_update_price_stats[OF pr av ne fits len m L, of id 200]
  obtain self' d' where run: "update_price_stats id 200 widget ?d = Inr (self', d')" by simp
  have mn: "Min (set [10, 1001 / 100 :: decimal]) = 10" by simp
  have mx: "Max (set [10, 1001 / 100 :: decimal]) = 1001 / 100" by simp
  have rc: "round_ctx (2001 / 200) = 2001 / 200"
    by (rule round_ctx_exact_places[of _ 3 10005]) simp_all
  have r: "decimal_rounding ?d = ROUND_HALF_EVEN" by (simp add: shop_def)
  from update_price_stats_values[OF ps ne run] fits len'
  have "lowest_price self' = Some 10 \<and> highest_price self' = Some (1001 / 100) \<and>
     average_price self' = Some (2001 / 200) \<and>
     (\<exists>row. get_product d' (prod_id widget) = Inr row \<and>
        lowest_price row = Some 10 \<and> highest_price row = Some (1001 / 100) \<and>
        average_price row = Some 10)"
    unfolding mn mx m r rc quantize_examples by blast
  with run show ?thesis by blast
qed

text \<open>
  With the prices 10.00 and 10.01 the object holds the average 10.005. The row holds
  10.00 when the layer rounds ties to even and 10.01 when it rounds them away from zero;
  the specification asks for 10.01.
\<close>

theorem update_price_stats_rounding_counterexample:
  "spec_average [10, 1001 / 100] = 1001 / 100 \<and>
   (case update_price_stats id 200 widget
           (shop [(1, offer (Some 1) None 10 ''USD'' True),
                  (2, offer (Some 2) None (1001 / 100) ''USD'' True)]) of
      Inl e \<Rightarrow> False
    | Inr (p, d) \<Rightarrow>
        average_price p = Some (2001 / 200) \<and>
        (case get_product d 1 of
           Inl e \<Rightarrow> False
         | Inr row \<Rightarrow> average_price row = Some 10)) \<and>
   (case update_price_stats id 200 widget
           ((shop [(1, offer (Some 1) None 10 ''USD'' True),
                   (2, offer (Some 2) None (1001 / 100) ''USD'' True)])
              \<lparr>decimal_rounding := ROUND_HALF_UP\<rparr>) of
      Inl e \<Rightarrow> False
    | Inr (p, d) \<Rightarrow>
        average_price p = Some (2001 / 200) \<and>
        (case get_product d 1 of
           Inl e \<Rightarrow> False
         | Inr row \<Rightarrow> average_price row = Some (1001 / 100)))"
proof -
  let ?rows = "[(1, offer (Some 1) None 10 ''USD'' True),
                (2, offer (Some 2) None (1001 / 100) ''USD'' True)]"
  let ?d = "shop ?rows"
  let ?u = "?d\<lparr>decimal_rounding := ROUND_HALF_UP\<rparr>"
  have av: "available_prices ?d (prod_id widget) = [10, 1001 / 100]"
    "available_prices ?u (prod_id widget) = [10, 1001 / 100]"
    by (simp_all add: available_prices_def shop_def offer_def widget_def)
  have ne: "[10, 1001 / 100 :: decimal] \<noteq> []" by simp
  have fits: "list_all fits_column [10, 1001 / 100]" by (simp add: fits_column_examples)
  have len: "length [10, 1001 / 100 :: decimal] < 10 ^ 18" by simp
  have m: "sum_list [10, 1001 / 100 :: decimal] / of_nat (length [10, 1001 / 100 :: decimal]) = 2001 / 200"
    by simp
  have L: "(2001 / 200 :: decimal) * 10 ^ 3 = of_int 10005" by simp
  have pr: "products ?d = [widget]" "products ?u = [widget]" by (simp_all add: shop_def)
  have r: "decimal_rounding ?d = ROUND_HALF_EVEN" "decimal_rounding ?u = ROUND_HALF_UP"
    by (simp_all add: shop_def)
  have j: "(3::nat) \<le> 20" by simp
  note even = widget_update_price_stats[OF pr(1) av(1) ne fits len m L j, of id 200]
  note up = widget_update_price_stats[OF pr(2) av(2) ne fits len m L j, of id 200]
  have spec: "spec_average [10, 1001 / 100] = 1001 / 100"
    by (simp add: spec_average_def)
  show ?thesis
    unfolding even up r quantize_examples
    by (simp add: spec get_product_def widget_def)
qed

text \<open>
  C4. \<^verbatim>\<open>update_price_stats\<close> does not read the currency column: on a database whose
  currencies have been rewritten in any way it does what it does on the original one,
  including the recomputation of the three statistics over all available prices.
\<close>

theorem update_price_stats_ignores_currency:
  "update_price_stats slugify now self (with_currency f d) =
     (case update_price_stats slugify now self d of
        Inl e \<Rightarrow> Inl e
      | Inr (self', d') \<Rightarrow> Inr (self', with_currency f d'))"
proof (cases "available_prices d (prod_id self) = []")
  case True
  then show ?thesis
    by (simp add: update_price_stats_empty available_prices_with_currency)
next
  case False
  have a: "available_prices (with_currency f d) (prod_id self) = available_prices d (prod_id self)"
    by (rule available_prices_with_currency)
  show ?thesis
    using update_price_stats_nonempty[OF a False, of slugify now]
      update_price_stats_nonempty[OF refl False, of slugify now]
    by (simp add: Product_save_with_currency)
qed

theorem update_price_stats_currency_counterexample:
  "map (\<lambda>(i, r). currency r)
     (retailer_prices (shop [(1, offer (Some 1) None 10 ''USD'' True),
                             (2, offer (Some 2) None 20 ''EUR'' True)])) = [''USD'', ''EUR''] \<and>
   average_price widget = Some 9 \<and>
   (case update_price_stats id 200 widget
           (shop [(1, offer (Some 1) None 10 ''USD'' True),
                  (2, offer (Some 2) None 20 ''EUR'' True)]) of
      Inl e \<Rightarrow> False
    | Inr (p, d) \<Rightarrow>
        lowest_price p = Some 10 \<and> highest_price p = Some 20 \<and> average_price p = Some 15 \<and>
        get_product d 1 = Inr p)"
proof -
  let ?d = "shop [(1, offer (Some 1) None 10 ''USD'' True),
                  (2, offer (Some 2) None 20 ''EUR'' True)]"
  have ps: "available_prices ?d (prod_id widget) = [10, 20]"
    by (simp add: available_prices_def shop_def offer_def widget_def)
  have run: "update_price_stats id 200 widget ?d =
     Product_save id 200
       (widget\<lparr>lowest_price := Some (Min (set [10, 20])),
                highest_price := Some (Max (set [10, 20])),
                average_price := Some 15\<rparr>) ?d"
    by (rule update_price_stats_eval[OF ps, of 15 0 15]) (simp_all add: fits_column_examples)
  show ?thesis
    unfolding run
    by (simp add: Product_save_def Model_save_product_def Let_def get_product_def
        product_to_db_def to_nullable_column_def to_column_fits fits_column_examples
        slug_taken_def write_product_def shop_def widget_def offer_def)
qed

text \<open>
  C10. When \<^verbatim>\<open>update_price_stats\<close> returns it has not changed the price table or the
  price history, nor the row of any other product. With no available observation it has
  written nothing at all. Otherwise it has written the row of its product whole, from the
  object it was called on (\<^verbatim>\<open>self.save()\<close> names no fields): the row holds the columns
  of the object, all of them the values the object came with but the three statistics,
  the timestamps and a slug that was empty. So only when the object agreed with the
  stored row in every other column (and had a slug) are the three statistics and
  \<^verbatim>\<open>updated_at\<close> all that has changed in the table of products.
\<close>

theorem update_price_stats_frame:
  assumes "update_price_stats slugify now self d = Inr (self', d')"
  shows "retailer_prices d' = retailer_prices d \<and> price_history d' = price_history d \<and>
     filter (\<lambda>r. prod_id r \<noteq> prod_id self) (products d') =
       filter (\<lambda>r. prod_id r \<noteq> prod_id self) (products d) \<and>
     (available_prices d (prod_id self) = [] \<longrightarrow> self' = self \<and> d' = d) \<and>
     (available_prices d (prod_id self) \<noteq> [] \<longrightarrow>
        get_product d' (prod_id self) = Inr (stored_product (decimal_rounding d) self') \<and>
        slug self' = (if slug self = [] then slugify (name self) else slug self) \<and>
        self'\<lparr>slug := [], lowest_price := None, highest_price := None, average_price := None,
               created_at := None, updated_at := 0\<rparr> =
          self\<lparr>slug := [], lowest_price := None, highest_price := None, average_price := None,
                created_at := None, updated_at := 0\<rparr>) \<and>
     (available_prices d (prod_id self) \<noteq> [] \<and> distinct (map prod_id (products d)) \<and>
      get_product d (prod_id self) = Inr row \<and> slug row \<noteq> [] \<and>
      self\<lparr>lowest_price := None, highest_price := None, average_price := None, updated_at := 0\<rparr> =
        row\<lparr>lowest_price := None, highest_price := None, average_price := None, updated_at := 0\<rparr>
      \<longrightarrow>
        products d' =
          map (\<lambda>r. if prod_id r = prod_id self
                    then r\<lparr>lowest_price :=
                             map_option (quantize (decimal_rounding d) 2) (lowest_price self'),
                           highest_price :=
                             map_option (quantize (decimal_rounding d) 2) (highest_price self'),
                           average_price :=
                             map_option (quantize (decimal_rounding d) 2) (average_price self'),
                           updated_at := now\<rparr>
                    else r) (products d))"
proof (cases "available_prices d (prod_id self) = []")
  case True
  with assms show ?thesis by (simp add: update_price_stats_empty)
next
  case False
  let ?r = "decimal_rounding d"
  let ?row = "stored_product ?r self'"
  note u = update_price_stats_Inr[OF assms refl False]
  note t = update_price_stats_tables[OF assms]
  have ids: "prod_id self' = prod_id self" by (rule t(3))
  have rid: "prod_id ?row = prod_id self" by (simp add: stored_product_simps ids)
  have f2: "filter (\<lambda>r. prod_id r \<noteq> prod_id self) (products d') =
            filter (\<lambda>r. prod_id r \<noteq> prod_id self) (products d)"
    using filter_write_product[of ?row "products d"] by (subst u(2)) (simp add: rid)
  have sl: "slug self' = (if slug self = [] then slugify (name self) else slug self)"
    by (subst u(1)) simp
  have rest: "self'\<lparr>slug := [], lowest_price := None, highest_price := None,
               average_price := None, created_at := None, updated_at := 0\<rparr> =
          self\<lparr>slug := [], lowest_price := None, highest_price := None, average_price := None,
                created_at := None, updated_at := 0\<rparr>"
    by (subst u(1)) simp
  have f3: "products d' = map (\<lambda>r. if prod_id r = prod_id self
                    then r\<lparr>lowest_price := map_option (quantize ?r 2) (lowest_price self'),
                           highest_price := map_option (quantize ?r 2) (highest_price self'),
                           average_price := map_option (quantize ?r 2) (average_price self'),
                           updated_at := now\<rparr>
                    else r) (products d)"
    if dist: "distinct (map prod_id (products d))"
      and row: "get_product d (prod_id self) = Inr row" and slr: "slug row \<noteq> []"
      and same: "self\<lparr>lowest_price := None, highest_price := None, average_price := None,
                      updated_at := 0\<rparr> =
                 row\<lparr>lowest_price := None, highest_price := None, average_price := None,
                     updated_at := 0\<rparr>"
  proof -
    from row have fnd: "find (\<lambda>r. prod_id r = prod_id self) (products d) = Some row"
      by (simp add: get_product_def split: option.splits)
    then have rin: "row \<in> set (products d)" and idr: "prod_id row = prod_id self"
      by (auto simp: find_Some_iff)
    then have ex: "list_ex (\<lambda>r. prod_id r = prod_id self) (products d)"
      by (auto simp: list_ex_iff)
    have col: "g (self\<lparr>lowest_price := None, highest_price := None, average_price := None,
                      updated_at := 0\<rparr>) =
               g (row\<lparr>lowest_price := None, highest_price := None, average_price := None,
                     updated_at := 0\<rparr>)" for g :: "product \<Rightarrow> 'a"
      by (simp only: same)
    have cols: "name self = name row" "slug self = slug row" "description self = description row"
      "category_id self = category_id row" "brand_id self = brand_id row"
      "image_file self = image_file row" "sku self = sku row" "upc self = upc row"
      "mpn self = mpn row" "view_count self = view_count row" "created_at self = created_at row"
      using col[of name] col[of slug] col[of description] col[of category_id] col[of brand_id]
        col[of image_file] col[of sku] col[of upc] col[of mpn] col[of view_count]
        col[of created_at]
      by simp_all
    have self': "self' = self\<lparr>lowest_price := lowest_price self',
        highest_price := highest_price self', average_price := average_price self',
        updated_at := now\<rparr>"
      using ex slr by (subst u(1), subst (3) u(1), subst (2) u(1), subst (1) u(1))
        (simp add: cols)
    have roweq: "row\<lparr>lowest_price := map_option (quantize ?r 2) (lowest_price self'),
               highest_price := map_option (quantize ?r 2) (highest_price self'),
               average_price := map_option (quantize ?r 2) (average_price self'),
               updated_at := now\<rparr> = ?row"
      by (subst (4) self')
        (rule product.equality; simp add: stored_product_def cols idr)
    have eq: "r\<lparr>lowest_price := map_option (quantize ?r 2) (lowest_price self'),
               highest_price := map_option (quantize ?r 2) (highest_price self'),
               average_price := map_option (quantize ?r 2) (average_price self'),
               updated_at := now\<rparr> = ?row"
      if "r \<in> set (products d)" and "prod_id r = prod_id self" for r
    proof -
      have "r = row" by (rule find_unique[OF dist fnd that])
      then show ?thesis by (simp only: roweq)
    qed
    have ex': "list_ex (\<lambda>r. prod_id r = prod_id ?row) (products d)"
      using ex by (simp only: rid)
    have "products d' = map (\<lambda>r. if prod_id r = prod_id ?row then ?row else r) (products d)"
      using ex' by (subst u(2)) (simp add: write_product_def)
    also have "\<dots> = map (\<lambda>r. if prod_id r = prod_id self
                    then r\<lparr>lowest_price := map_option (quantize ?r 2) (lowest_price self'),
                           highest_price := map_option (quantize ?r 2) (highest_price self'),
                           average_price := map_option (quantize ?r 2) (average_price self'),
                           updated_at := now\<rparr>
                    else r) (products d)"
    proof (rule map_cong[OF refl])
      fix r assume "r \<in> set (products d)"
      then show "(if prod_id r = prod_id ?row then ?row else r) =
            (if prod_id r = prod_id self
             then r\<lparr>lowest_price := map_option (quantize ?r 2) (lowest_price self'),
                    highest_price := map_option (quantize ?r 2) (highest_price self'),
                    average_price := map_option (quantize ?r 2) (average_price self'),
                    updated_at := now\<rparr>
             else r)"
        using eq[of r] by (simp only: rid split: if_splits) simp
    qed
    finally show ?thesis .
  qed
  show ?thesis using t(1,2) f2 u(3) sl rest f3 False by simp
qed

theorem update_price_stats_frame_witness:
  "\<exists>self' d'. update_price_stats id 200 widget
        (shop [(1, offer (Some 1) None 10 ''USD'' True),
               (2, offer (Some 2) None (1001 / 100) ''USD'' True)]) = Inr (self', d') \<and>
     retailer_prices d' = [(1, offer (Some 1) None 10 ''USD'' True),
                           (2, offer (Some 2) None (1001 / 100) ''USD'' True)] \<and>
     price_history d' = [] \<and>
     average_price self' = Some (2001 / 200) \<and>
     products d' = [widget\<lparr>lowest_price := Some 10, highest_price := Some (1001 / 100),
                            average_price := Some 10, updated_at := 200\<rparr>]"
proof -
  let ?rows = "[(1, offer (Some 1) None 10 ''USD'' True),
                (2, offer (Some 2) None (1001 / 100) ''USD'' True)]"
  let ?d = "shop ?rows"
  have av: "available_prices ?d (prod_id widget) = [10, 1001 / 100]"
    by (simp add: available_prices_def shop_def offer_def widget_def)
  have ne: "[10, 1001 / 100 :: decimal] \<noteq> []" by simp
  have fits: "list_all fits_column [10, 1001 / 100]" by (simp add: fits_column_examples)
  have len: "length [10, 1001 / 100 :: decimal] < 10 ^ 18" by simp
  have m: "sum_list [10, 1001 / 100 :: decimal] / of_nat (length [10, 1001 / 100 :: decimal])
           = 2001 / 200"
    by simp
  have L: "(2001 / 200 :: decimal) * 10 ^ 3 = of_int 10005" by simp
  have j: "(3::nat) \<le> 20" by simp
  have pr: "products ?d = [widget]" by (simp add: shop_def)
  note run = widget_update_price_stats[OF pr av ne fits len m L j, of id 200]
  define self' where "self' = widget\<lparr>lowest_price := Some (Min (set [10, 1001 / 100])),
      highest_price := Some (Max (set [10, 1001 / 100])), average_price := Some (2001 / 200),
      updated_at := 200\<rparr>"
  obtain d' where res: "update_price_stats id 200 widget ?d = Inr (self', d')"
    unfolding run self'_def by blast
  have obj: "lowest_price self' = Some 10" "highest_price self' = Some (1001 / 100)"
    "average_price self' = Some (2001 / 200)"
    by (simp_all add: self'_def)
  have cond: "available_prices ?d (prod_id widget) \<noteq> []" "distinct (map prod_id (products ?d))"
    "get_product ?d (prod_id widget) = Inr widget" "slug widget \<noteq> []"
    unfolding av pr get_product_def by (simp_all add: widget_def)
  have q: "quantize ROUND_HALF_EVEN 2 10 = 10" "quantize ROUND_HALF_EVEN 2 (1001 / 100) = 1001 / 100"
    by (simp_all add: quantize_fits fits_column_examples)
  have r: "decimal_rounding ?d = ROUND_HALF_EVEN" "retailer_prices ?d = ?rows"
    "price_history ?d = []"
    by (simp_all add: shop_def)
  from update_price_stats_frame[OF res, of widget] cond
  have "retailer_prices d' = ?rows \<and> price_history d' = [] \<and>
     products d' = [widget\<lparr>lowest_price := Some 10, highest_price := Some (1001 / 100),
                            average_price := Some 10, updated_at := 200\<rparr>]"
    by (simp add: obj pr r q quantize_examples del: One_nat_def)
  with res obj(3) show ?thesis by blast
qed

theorem update_price_stats_stale_counterexample:
  "get_product (shop [(1, offer (Some 1) None 10 ''USD'' True)]) 1 = Inr widget \<and>
   view_count widget = 5 \<and> name widget = ''Widget'' \<and>
   (case update_price_stats id 200 (widget\<lparr>name := ''Gadget'', view_count := 3\<rparr>)
           (shop [(1, offer (Some 1) None 10 ''USD'' True)]) of
      Inl e \<Rightarrow> False
    | Inr (p, d) \<Rightarrow>
        (case get_product d 1 of
           Inl e \<Rightarrow> False
         | Inr r \<Rightarrow> view_count r = 3 \<and> name r = ''Gadget''))"
proof -
  let ?d = "shop [(1, offer (Some 1) None 10 ''USD'' True)]"
  let ?w = "widget\<lparr>name := ''Gadget'', view_count := 3\<rparr>"
  have av: "available_prices ?d (prod_id ?w) = [10]"
    by (simp add: available_prices_def shop_def offer_def widget_def)
  have pr: "products ?d = [widget]" by (simp add: shop_def)
  have id: "prod_id widget = prod_id ?w" by simp
  have sl: "slug ?w \<noteq> []" and cr: "created_at ?w \<noteq> None" by (simp_all add: widget_def)
  have ne: "[10 :: decimal] \<noteq> []" by simp
  have fits: "list_all fits_column [10]" by (simp add: fits_column_examples)
  have len: "length [10 :: decimal] < 10 ^ 18" by simp
  have m: "sum_list [10 :: decimal] / of_nat (length [10 :: decimal]) = 10" by simp
  have L: "(10 :: decimal) * 10 ^ 0 = of_int 10" by simp
  have j: "(0::nat) \<le> 20" by simp
  note run = single_update_price_stats[OF pr id sl cr av ne fits len m L j, of id 200]
  show ?thesis
    unfolding run by (simp add: get_product_def shop_def widget_def)
qed

section \<open>Saving a price observation\<close>

text \<open>
  C1. When \<^verbatim>\<open>RetailerProductPrice.save\<close> returns: the price history is what it was
  (no entry is ever appended); \<^verbatim>\<open>previous_price\<close> is the stored price when the
  instance has a key other than 0, a row is stored under it and its price differs from
  the price of the instance, and otherwise the value the instance came with (for a first
  save, whatever the caller set; null by default); and the row stored under the
  instance's key holds the instance's columns, each decimal rounded to the two places of
  its column, so the price itself when that fits the column.
\<close>

theorem save_tracks_previous_price:
  assumes "RetailerProductPrice_save slugify now self d = Inr (self', d')"
  shows "price_history d' = price_history d \<and>
     previous_price self' =
       (case pk self of
          None \<Rightarrow> previous_price self
        | Some k \<Rightarrow>
            if k = 0 then previous_price self
            else (case map_of (retailer_prices d) k of
                    None \<Rightarrow> previous_price self
                  | Some old \<Rightarrow>
                      if price old = price self then previous_price self
                      else Some (price old))) \<and>
     price self' = price self \<and>
     (\<exists>k row. pk self' = Some k \<and> map_of (retailer_prices d') k = Some row \<and>
        row = stored_price_row (decimal_rounding d) (price_row.truncate self') \<and>
        price row = quantize (decimal_rounding d) 2 (price self) \<and> fits_column (price row) \<and>
        previous_price row =
          map_option (quantize (decimal_rounding d) 2) (previous_price self') \<and>
        (fits_column (price self) \<longrightarrow> price row = price self))"
proof -
  let ?r = "decimal_rounding d"
  note e = save_effect[OF assms]
  from e obtain k where k: "pk self' = Some k"
    and st: "map_of (retailer_prices d') k = Some (stored_price_row ?r (price_row.truncate self'))"
    by blast
  let ?row = "stored_price_row ?r (price_row.truncate self')"
  from e have ps: "price self' = price self" by simp
  have p: "price ?row = quantize ?r 2 (price self)"
    by (simp add: stored_price_row_simps truncate_simps ps)
  have pp: "previous_price ?row = map_option (quantize ?r 2) (previous_price self')"
    by (simp add: stored_price_row_simps truncate_simps)
  from save_Inr[OF assms] obtain s1 s2 d1 p' where
    m: "Model_save_price now s1 d = Inr (s2, d1)" and
    self': "self' = s2\<lparr>cached_product := Some p'\<rparr>"
    by blast
  from Model_save_price_Inr(1)[OF m] obtain k' where
    s2: "s2 = s1\<lparr>price_updated_at := now, last_checked := now, pk := Some k'\<rparr>" by blast
  have "price_row.truncate self' =
        price_row.truncate (s1\<lparr>price_updated_at := now, last_checked := now\<rparr>)"
    by (simp add: self' truncate_more) (subst s2, simp add: truncate_more)
  with price_row_to_db_Inr(2)[OF Model_save_price_Inr(7)[OF m]]
  have f: "fits_column (price ?row)" by simp
  have "price ?row = price self" if "fits_column (price self)"
    using p quantize_fits[OF that, of ?r] by simp
  with k st p pp f have "\<exists>k row. pk self' = Some k \<and> map_of (retailer_prices d') k = Some row \<and>
        row = stored_price_row ?r (price_row.truncate self') \<and>
        price row = quantize ?r 2 (price self) \<and> fits_column (price row) \<and>
        previous_price row = map_option (quantize ?r 2) (previous_price self') \<and>
        (fits_column (price self) \<longrightarrow> price row = price self)"
    by blast
  with e show ?thesis by simp
qed

text \<open>
  A stored price of 10.00 and an instance with the price 8.00; and the same with the price
  10.005, which the column stores as 10.00: the stored price does not change, and
  \<^verbatim>\<open>previous_price\<close> is set all the same, since 10.00 and 10.005 differ.
\<close>

theorem save_tracks_previous_price_witness:
  "(\<exists>self' d'. RetailerProductPrice_save id 200
        (instance_of (Some 1) (offer (Some 1) None 8 ''USD'' True))
        (shop [(1, offer (Some 1) None 10 ''USD'' True)]) = Inr (self', d') \<and>
     price_history d' = [] \<and> previous_price self' = Some 10 \<and> price self' = 8 \<and>
     (\<exists>k row. pk self' = Some k \<and> map_of (retailer_prices d') k = Some row \<and>
        price row = 8 \<and> previous_price row = Some 10)) \<and>
   (\<exists>self' d'. RetailerProductPrice_save id 200
        (instance_of (Some 1) (offer (Some 1) None (2001 / 200) ''USD'' True))
        (shop [(1, offer (Some 1) None 10 ''USD'' True)]) = Inr (self', d') \<and>
     price_history d' = [] \<and> previous_price self' = Some 10 \<and> price self' = 2001 / 200 \<and>
     (\<exists>k row. pk self' = Some k \<and> map_of (retailer_prices d') k = Some row \<and>
        price row = 10 \<and> previous_price row = Some 10))"
proof -
  let ?i = "instance_of (Some 1) (offer (Some 1) None 8 ''USD'' True)"
  let ?j = "instance_of (Some 1) (offer (Some 1) None (2001 / 200) ''USD'' True)"
  let ?rows = "[(1, offer (Some 1) None 10 ''USD'' True)]"
  let ?d = "shop ?rows"
  have t: "track_price_changes ?i ?d = Inr (?i\<lparr>previous_price := Some 10\<rparr>)"
    "track_price_changes ?j ?d = Inr (?j\<lparr>previous_price := Some 10\<rparr>)"
    by (simp_all add: track_price_changes_def sample_simps)
  have un: "\<not> unique_together_violated (Some 1) (offer (Some 1) None 8 ''USD'' True) ?rows"
    "\<not> unique_together_violated (Some 1) (offer (Some 1) None (2001 / 200) ''USD'' True) ?rows"
    by (simp_all add: unique_together_violated_def)
  have f: "to_column ROUND_HALF_EVEN 10 2 8 = Inr 8"
    "to_column ROUND_HALF_EVEN 10 2 (2001 / 200) = Inr 10"
    by code_simp+
  have pp: "case previous_price (?i\<lparr>previous_price := Some 10\<rparr>) of
              None \<Rightarrow> True | Some v \<Rightarrow> fits_column v"
    "case previous_price (?j\<lparr>previous_price := Some 10\<rparr>) of
              None \<Rightarrow> True | Some v \<Rightarrow> fits_column v"
    by (simp_all add: fits_column_examples)
  have tbl: "price_table_ok ?d"
    by (simp add: price_table_ok_def sample_simps fits_column_examples)
  from shop_save_ok[OF t(1) un(1) f(1) pp(1) tbl, of id 200] obtain si di where
    ri: "RetailerProductPrice_save id 200 ?i ?d = Inr (si, di)" by blast
  from shop_save_ok[OF t(2) un(2) f(2) pp(2) tbl, of id 200] obtain sj dj where
    rj: "RetailerProductPrice_save id 200 ?j ?d = Inr (sj, dj)" by blast
  have q: "quantize ROUND_HALF_EVEN 2 8 = 8" "quantize ROUND_HALF_EVEN 2 10 = 10"
    by (simp_all add: quantize_fits fits_column_examples)
  from save_tracks_previous_price[OF ri]
  have a: "price_history di = [] \<and> previous_price si = Some 10 \<and> price si = 8 \<and>
     (\<exists>k row. pk si = Some k \<and> map_of (retailer_prices di) k = Some row \<and>
        price row = 8 \<and> previous_price row = Some 10)"
    by (auto simp: sample_simps q)
  from save_tracks_previous_price[OF rj]
  have b: "price_history dj = [] \<and> previous_price sj = Some 10 \<and> price sj = 2001 / 200 \<and>
     (\<exists>k row. pk sj = Some k \<and> map_of (retailer_prices dj) k = Some row \<and>
        price row = 10 \<and> previous_price row = Some 10)"
    by (auto simp: sample_simps q quantize_examples)
  from ri a rj b show ?thesis by blast
qed

theorem save_appends_no_history_counterexample:
  "(case RetailerProductPrice_save id 200
           (instance_of None (offer (Some 1) None 10 ''USD'' True)) (shop []) of
      Inl e \<Rightarrow> False
    | Inr (self', d') \<Rightarrow>
        price self' = 10 \<and> previous_price self' = None \<and> price_history d' = [] \<and>
        (case pk self' of
           None \<Rightarrow> False
         | Some k \<Rightarrow> map_of (retailer_prices d') k = Some (price_row.truncate self'))) \<and>
   (case RetailerProductPrice_save id 200
           (instance_of (Some 1) (offer (Some 1) None 8 ''USD'' True))
           (shop [(1, offer (Some 1) None 10 ''USD'' True)]) of
      Inl e \<Rightarrow> False
    | Inr (self', d') \<Rightarrow>
        price self' = 8 \<and> previous_price self' = Some 10 \<and> price_history d' = [])"
proof -
  let ?n = "instance_of None (offer (Some 1) None 10 ''USD'' True)"
  let ?i = "instance_of (Some 1) (offer (Some 1) None 8 ''USD'' True)"
  let ?rows = "[(1, offer (Some 1) None 10 ''USD'' True)]"
  let ?d = "shop ?rows"
  have f10: "fits_column 10" by (rule fits_column_examples)
  from first_save_succeeds[OF f10, of id 200 "Some 1" None "''USD''" True] obtain sn dn where
    rn: "RetailerProductPrice_save id 200 ?n (shop []) = Inr (sn, dn)" by blast
  note en = save_effect[OF rn]
  have cols: "price sn = 10" "previous_price sn = None" "shipping_cost sn = 499 / 100"
    using en save_columns(6)[OF rn] by (simp_all add: sample_simps)
  have "stored_price_row ROUND_HALF_EVEN (price_row.truncate sn) = price_row.truncate sn"
  proof (rule stored_price_row_fits)
    show "fits_column (price (price_row.truncate sn))"
      unfolding truncate_simps cols by (rule f10)
    show "fits_shipping_column (shipping_cost (price_row.truncate sn))"
      unfolding truncate_simps cols by (rule fits_shipping_example)
    show "case previous_price (price_row.truncate sn) of None \<Rightarrow> True | Some x \<Rightarrow> fits_column x"
      unfolding truncate_simps cols by simp
  qed
  with en cols have first: "price sn = 10 \<and> previous_price sn = None \<and> price_history dn = [] \<and>
        (case pk sn of
           None \<Rightarrow> False
         | Some k \<Rightarrow> map_of (retailer_prices dn) k = Some (price_row.truncate sn))"
    by (auto simp: sample_simps)
  have t: "track_price_changes ?i ?d = Inr (?i\<lparr>previous_price := Some 10\<rparr>)"
    by (simp add: track_price_changes_def sample_simps)
  have un: "\<not> unique_together_violated (Some 1) (offer (Some 1) None 8 ''USD'' True) ?rows"
    by (simp add: unique_together_violated_def)
  have f: "to_column ROUND_HALF_EVEN 10 2 8 = Inr 8"
    by (rule to_column_fits[OF fits_column_examples(2)])
  have pp: "case previous_price (?i\<lparr>previous_price := Some 10\<rparr>) of
              None \<Rightarrow> True | Some v \<Rightarrow> fits_column v"
    by (simp add: fits_column_examples)
  have tbl: "price_table_ok ?d"
    by (simp add: price_table_ok_def sample_simps fits_column_examples)
  from shop_save_ok[OF t un f pp tbl, of id 200] obtain si di where
    ri: "RetailerProductPrice_save id 200 ?i ?d = Inr (si, di)" by blast
  have second: "price si = 8 \<and> previous_price si = Some 10 \<and> price_history di = []"
    using save_effect[OF ri] by (simp add: sample_simps)
  show ?thesis
    unfolding rn ri using first second by simp
qed

text \<open>
  C6. Nothing checks the two source references. Saving a new observation into an empty
  price table returns normally and stores the row both when neither reference is set and
  when both are.
\<close>

theorem save_stores_any_source_pair:
  "(case RetailerProductPrice_save id 200
           (instance_of None (offer None None 10 ''USD'' True)) (shop []) of
      Inl e \<Rightarrow> False
    | Inr (self', d') \<Rightarrow>
        retailer self' = None \<and> small_retailer self' = None \<and>
        (case pk self' of
           None \<Rightarrow> False
         | Some k \<Rightarrow> map_of (retailer_prices d') k = Some (price_row.truncate self'))) \<and>
   (case RetailerProductPrice_save id 200
           (instance_of None (offer (Some 1) (Some 2) 10 ''USD'' True)) (shop []) of
      Inl e \<Rightarrow> False
    | Inr (self', d') \<Rightarrow>
        retailer self' = Some 1 \<and> small_retailer self' = Some 2 \<and>
        (case pk self' of
           None \<Rightarrow> False
         | Some k \<Rightarrow> map_of (retailer_prices d') k = Some (price_row.truncate self')))"
proof -
  let ?n = "instance_of None (offer None None 10 ''USD'' True)"
  let ?b = "instance_of None (offer (Some 1) (Some 2) 10 ''USD'' True)"
  have f: "fits_column 10" by (rule fits_column_examples)
  from first_save_succeeds[OF f, of id 200 None None "''USD''" True] obtain sn dn where
    rn: "RetailerProductPrice_save id 200 ?n (shop []) = Inr (sn, dn)" by blast
  from first_save_succeeds[OF f, of id 200 "Some 1" "Some 2" "''USD''" True] obtain sb db where
    rb: "RetailerProductPrice_save id 200 ?b (shop []) = Inr (sb, db)" by blast
  have st: "stored_price_row ROUND_HALF_EVEN (price_row.truncate s) = price_row.truncate s"
    if "price s = 10" "shipping_cost s = 499 / 100" "previous_price s = None" for s
  proof (rule stored_price_row_fits)
    show "fits_column (price (price_row.truncate s))"
      unfolding truncate_simps that(1) by (rule f)
    show "fits_shipping_column (shipping_cost (price_row.truncate s))"
      unfolding truncate_simps that(2) by (rule fits_shipping_example)
    show "case previous_price (price_row.truncate s) of None \<Rightarrow> True | Some x \<Rightarrow> fits_column x"
      unfolding truncate_simps that(3) by simp
  qed
  have n: "retailer sn = None \<and> small_retailer sn = None \<and>
        (case pk sn of
           None \<Rightarrow> False
         | Some k \<Rightarrow> map_of (retailer_prices dn) k = Some (price_row.truncate sn))"
    using save_effect[OF rn] save_columns(2,3,6)[OF rn] st[of sn]
    by (auto simp: sample_simps)
  have b: "retailer sb = Some 1 \<and> small_retailer sb = Some 2 \<and>
        (case pk sb of
           None \<Rightarrow> False
         | Some k \<Rightarrow> map_of (retailer_prices db) k = Some (price_row.truncate sb))"
    using save_effect[OF rb] save_columns(2,3,6)[OF rb] st[of sb]
    by (auto simp: sample_simps)
  show ?thesis
    unfolding rn rb using n b by simp
qed

section \<open>Scraper runs\<close>




end
